theory Spec2Isabelle
  imports Main "HOL-Library.Sublist" "HOL-Library.AList"
begin

section \<open>Python values, exceptions and strings\<close>

text \<open>
  The recipe documents are loaded from YAML.  A scalar that the resolvers only test for
  truth, copy or print is a \<open>pyval\<close>; \<open>truthy\<close> is Python's truth test on it.
  A string is a list of code points below 256.
\<close>

datatype pyval = PNone | PBool bool | PInt int | PStr string

fun truthy :: "pyval \<Rightarrow> bool" where
  "truthy PNone = False"
| "truthy (PBool b) = b"
| "truthy (PInt i) = (i \<noteq> 0)"
| "truthy (PStr s) = (s \<noteq> [])"

text \<open>Every \<open>raise\<close> of the source, and every error Python raises by itself on the
  modelled inputs, is a value of \<open>exn\<close>; the argument is the message (for
  \<open>UnboundLocalError\<close> and \<open>KeyError\<close>, the name that is missing).\<close>

datatype exn =
    Exception string
  | FileNotFoundError string
  | UnboundLocalError string
  | TypeError string
  | AttributeError string
  | KeyError string
  | IndexError string

text \<open>\<open>str.isspace\<close> on the code points below 256, which is what \<open>str.strip()\<close>
  with no argument removes at both ends.\<close>

definition isspace :: "char \<Rightarrow> bool" where
  "isspace c = (of_char c \<in> {9, 10, 11, 12, 13, 28, 29, 30, 31, 32, 133, 160 :: nat})"

definition rstrip :: "string \<Rightarrow> string" where
  "rstrip s = rev (dropWhile isspace (rev s))"

definition strip :: "string \<Rightarrow> string" where
  "strip s = rstrip (dropWhile isspace s)"

fun digits :: "nat \<Rightarrow> string" where
  "digits n = (if n < 10 then [char_of (48 + n)] else digits (n div 10) @ [char_of (48 + n mod 10)])"

text \<open>\<open>str(v)\<close>, as \<open>str.format\<close> prints a value.\<close>

fun py_str :: "pyval \<Rightarrow> string" where
  "py_str PNone = ''None''"
| "py_str (PBool b) = (if b then ''True'' else ''False'')"
| "py_str (PInt i) = (if i < 0 then CHR ''-'' # digits (nat (- i)) else digits (nat i))"
| "py_str (PStr s) = s"

section \<open>The recipe's data\<close>

text \<open>
  The documents are loaded by \<open>yaml.Loader\<close>, which turns an alias into a second
  reference to the object of its anchor: two package sets may be one mapping, and the
  \<open>specs\<close> of two sets may be one list.  The resolver assigns to the mappings and
  appends to the lists in place, so both live in a store, at addresses.
\<close>

type_synonym addr = nat

text \<open>
  The mapping of a package set of \<open>packages.yaml\<close>.  The outer \<open>option\<close> of a field
  is the presence of the key, the inner one (for \<open>specs\<close> and \<open>mpi\<close>) is YAML null;
  \<open>specs\<close> holds the address of a list.
\<close>

record package_set =
  specs :: "addr option option"
  mpi :: "string option option"
  gpu :: "pyval option"

text \<open>The store: the mappings of the sets, the lists, and the address the next new
  list gets (a new list is no list of the loaded document).\<close>

record heap =
  sets :: "addr \<Rightarrow> package_set"
  lists :: "addr \<Rightarrow> string list"
  fresh :: addr

text \<open>A mapping from names is an association list in insertion order, as a Python
  dict iterates, and \<open>map_of\<close> is the lookup.  \<open>packages\<close> maps the name of a set to
  the address of its mapping.\<close>

type_synonym package_sets = "(string \<times> addr) list"

text \<open>A stage of \<open>compilers.yaml\<close> as declared: \<open>None\<close> is a missing key.\<close>

record raw_stage =
  raw_specs :: "string list option"
  raw_requires :: "string option"

text \<open>A resolved compiler stage.  \<open>stage_packages = None\<close> is the \<open>False\<close> of the
  llvm stage; \<open>stage_requires = None\<close> is the missing \<open>requires\<close> key of bootstrap.\<close>

record toolchain_packages =
  external :: "string list"
  variants :: "(string \<times> string) list"

record stage =
  stage_packages :: "toolchain_packages option"
  stage_specs :: "string list"
  stage_requires :: "string option"

text \<open>The attributes of a \<open>Recipe\<close> object that the two resolvers assign.
  \<open>packages = None\<close>: the attribute has not been assigned.\<close>

record Recipe =
  compilers :: "(string \<times> stage) list"
  packages :: "package_sets option"

text \<open>\<open>config.yaml\<close>: \<open>mirror = None\<close> is a missing key, \<open>Some None\<close> is null,
  \<open>Some (Some m)\<close> a mapping.\<close>

record config =
  mirror :: "(string \<times> pyval) list option option"
  system :: "string option"

record Mirror =
  key :: pyval
  source :: "string option"

section \<open>\<open>validate_recipe_config\<close>\<close>

text \<open>\<open>os.path.isfile\<close>: the file system answers for a path (or a descriptor);
  \<open>None\<close> is not a path and raises.\<close>

definition os_path_isfile :: "(pyval \<Rightarrow> bool) \<Rightarrow> pyval \<Rightarrow> exn + bool" where
  "os_path_isfile fs p =
     (if p = PNone
      then Inl (TypeError ''stat: path should be string, bytes, os.PathLike or integer, not NoneType'')
      else Inr (fs p))"

text \<open>The first \<open>if\<close> of \<open>validate_recipe_config\<close>.  It returns the mapping, with
  \<open>mirror\<close> set to null where the key was missing, and the local variable \<open>p\<close>:
  \<open>None\<close> when no assignment to \<open>p\<close> was executed.\<close>

definition check_mirror :: "(pyval \<Rightarrow> bool) \<Rightarrow> config \<Rightarrow> exn + (config \<times> pyval option)" where
  "check_mirror fs cfg =
     (case mirror cfg of
        None \<Rightarrow> Inr (cfg\<lparr>mirror := Some None\<rparr>, None)
      | Some None \<Rightarrow> Inl (TypeError ''argument of type NoneType is not iterable'')
      | Some (Some m) \<Rightarrow>
          (case map_of m ''key'' of
             None \<Rightarrow> Inr (cfg, None)
           | Some p \<Rightarrow>
               (case os_path_isfile fs p of
                  Inl e \<Rightarrow> Inl e
                | Inr isf \<Rightarrow>
                    if \<not> isf
                    then Inl (FileNotFoundError (''The key file '' @ [CHR 0x27] @ py_str p @ [CHR 0x27] @ '' does not exist''))
                    else Inr (cfg, Some p))))"

definition validate_recipe_config :: "(pyval \<Rightarrow> bool) \<Rightarrow> config \<Rightarrow> exn + config" where
  "validate_recipe_config fs cfg =
     (case check_mirror fs cfg of
        Inl e \<Rightarrow> Inl e
      | Inr (cfg', p) \<Rightarrow>
          (case system cfg' of
             Some name \<Rightarrow>
               if name \<notin> set [''hohgant'', ''balfrin'']
               then Inl (FileNotFoundError (''The  system '' @ [CHR 0x27] @ name @ [CHR 0x27] @ '' must be one of hohgant or balfrin''))
               else Inr cfg'
           | None \<Rightarrow>
               (case p of
                  None \<Rightarrow> Inl (UnboundLocalError ''p'')
                | Some path \<Rightarrow>
                    Inl (FileNotFoundError (''The  '' @ [CHR 0x27] @ py_str path @ [CHR 0x27] @ '' does not exist'')))))"

section \<open>\<open>Mirror\<close>\<close>

text \<open>\<open>Mirror.__init__(config, source)\<close>: \<open>if config\<close> is false for \<open>None\<close> and for
  the empty mapping.\<close>

definition Mirror_init :: "(string \<times> pyval) list option \<Rightarrow> string option \<Rightarrow> Mirror" where
  "Mirror_init cfg src =
     (case cfg of
        None \<Rightarrow> \<lparr>key = PNone, source = None\<rparr>
      | Some m \<Rightarrow>
          if m \<noteq> []
          then (let enabled = (case map_of m ''enable'' of None \<Rightarrow> PBool True | Some v \<Rightarrow> v);
                    k = (case map_of m ''key'' of None \<Rightarrow> PNone | Some v \<Rightarrow> v)
                in \<lparr>key = k, source = (if \<not> truthy enabled then None else src)\<rparr>)
          else \<lparr>key = PNone, source = None\<rparr>)"

section \<open>\<open>Recipe.generate_package_specs\<close>\<close>

definition valid_mpi_specs :: "(string \<times> (string option \<times> string option)) list" where
  "valid_mpi_specs =
     [(''cray-mpich-binary'', (None, None)),
      (''mpich'', (Some ''4.1rc2'', Some ''device=ch4 netmod=ofi +slurm'')),
      (''mvapich2'', (Some ''3.0a'', Some ''+xpmem fabrics=ch4ofi ch4_max_vcis=4 process_managers=slurm''))]"

text \<open>The body of the first loop on the set at address \<open>a\<close>: the fields the set
  does not give are assigned in its mapping; \<open>[]\<close> is a new list.\<close>

definition amend :: "heap \<Rightarrow> addr \<Rightarrow> heap" where
  "amend h a =
     (let h1 = (if specs (sets h a) = None \<or> specs (sets h a) = Some None
                then h\<lparr>sets := (sets h)(a := (sets h a)\<lparr>specs := Some (Some (fresh h))\<rparr>),
                       lists := (lists h)(fresh h := []),
                       fresh := Suc (fresh h)\<rparr>
                else h);
          h2 = (if mpi (sets h1 a) = None
                then h1\<lparr>sets := (sets h1)(a := (sets h1 a)\<lparr>mpi := Some None\<rparr>)\<rparr> else h1)
      in if gpu (sets h2 a) = None
         then h2\<lparr>sets := (sets h2)(a := (sets h2 a)\<lparr>gpu := Some PNone\<rparr>)\<rparr> else h2)"

fun amend_loop :: "heap \<Rightarrow> package_sets \<Rightarrow> heap" where
  "amend_loop h [] = h"
| "amend_loop h ((name, a) # rest) = amend_loop (amend h a) rest"

text \<open>\<open>mpi.strip().split(sep='@', maxsplit=1)\<close> unpacked into two names: a string
  with no \<open>@\<close> splits into one piece, the unpacking raises ValueError and the handler
  takes the stripped string with no version.\<close>

definition split_mpi :: "string \<Rightarrow> string \<times> string option" where
  "split_mpi m =
     (let s = strip m
      in if CHR ''@'' \<in> set s
         then (takeWhile (\<lambda>c. c \<noteq> CHR ''@'') s, Some (tl (dropWhile (\<lambda>c. c \<noteq> CHR ''@'') s)))
         else (s, None))"

text \<open>The local \<open>version_opt\<close>, from \<open>mpi_ver\<close> and the table's \<open>default_ver\<close>;
  the tests are truth tests, false for \<open>None\<close> and for the empty string.\<close>

definition version_opt :: "string option \<Rightarrow> string option \<Rightarrow> string" where
  "version_opt mpi_ver default_ver =
     (case mpi_ver of
        Some v \<Rightarrow> if v \<noteq> [] then ''@'' @ v
                  else (case default_ver of Some d \<Rightarrow> if d \<noteq> [] then ''@'' @ d else [] | None \<Rightarrow> [])
      | None \<Rightarrow> (case default_ver of Some d \<Rightarrow> if d \<noteq> [] then ''@'' @ d else [] | None \<Rightarrow> []))"

text \<open>The spec composed for a set whose \<open>mpi\<close> is the (true) string \<open>m\<close> and whose
  \<open>gpu\<close> is \<open>g\<close>.\<close>

definition mpi_spec :: "string \<Rightarrow> pyval \<Rightarrow> exn + string" where
  "mpi_spec m g =
     (case split_mpi m of
        (mpi_impl, mpi_ver) \<Rightarrow>
          (case map_of valid_mpi_specs mpi_impl of
             Some (default_ver, options) \<Rightarrow>
               (let spec = strip (mpi_impl @ version_opt mpi_ver default_ver @ '' ''
                                  @ (case options of Some opts \<Rightarrow> opts | None \<Rightarrow> []))
                in Inr (if truthy g \<and> mpi_impl \<noteq> ''cray-mpich-binary''
                        then spec @ '' cuda_arch=80'' else spec))
           | None \<Rightarrow> Inl (Exception (''Unsupported mpi: '' @ mpi_impl))))"

text \<open>The body of the second loop on the set at address \<open>a\<close>: the store after it,
  or the exception it raises.  The spec is appended to the list the set refers to.\<close>

definition expand :: "heap \<Rightarrow> addr \<Rightarrow> exn + heap" where
  "expand h a =
     (case mpi (sets h a) of
        None \<Rightarrow> Inl (KeyError ''mpi'')
      | Some None \<Rightarrow> Inr h
      | Some (Some m) \<Rightarrow>
          if m = [] then Inr h
          else (case mpi_spec m (case gpu (sets h a) of Some g \<Rightarrow> g | None \<Rightarrow> PNone) of
                  Inl e \<Rightarrow> Inl e
                | Inr spec \<Rightarrow>
                    (case gpu (sets h a) of
                       None \<Rightarrow> Inl (KeyError ''gpu'')
                     | Some g \<Rightarrow>
                         (case specs (sets h a) of
                            None \<Rightarrow> Inl (KeyError ''specs'')
                          | Some None \<Rightarrow> Inl (AttributeError ''append'')
                          | Some (Some l) \<Rightarrow> Inr (h\<lparr>lists := (lists h)(l := lists h l @ [spec])\<rparr>)))))"

text \<open>The second loop.  At an exception the store stays as it is at that moment.\<close>

fun mpi_loop :: "heap \<Rightarrow> package_sets \<Rightarrow> heap \<times> exn option" where
  "mpi_loop h [] = (h, None)"
| "mpi_loop h ((name, a) # rest) =
     (case expand h a of
        Inl e \<Rightarrow> (h, Some e)
      | Inr h' \<Rightarrow> mpi_loop h' rest)"

text \<open>The method, called on the object \<open>self\<close> in the store \<open>h\<close> with the mapping
  \<open>raw\<close>: it returns the object, the store as the call leaves it and the exception
  raised, if any.  \<open>self.packages\<close> is the mapping it was given, not a copy.\<close>

definition generate_package_specs :: "Recipe \<Rightarrow> heap \<Rightarrow> package_sets \<Rightarrow> Recipe \<times> heap \<times> exn option" where
  "generate_package_specs self h raw =
     (case mpi_loop (amend_loop h raw) raw of
        (h', Some e) \<Rightarrow> (self, h', Some e)
      | (h', None) \<Rightarrow> (self\<lparr>packages := Some raw\<rparr>, h', None))"

section \<open>\<open>Recipe.generate_compiler_specs\<close>\<close>

definition toolchain_external :: "string list" where
  "toolchain_external =
     [''perl'', ''m4'', ''autoconf'', ''automake'', ''libtool'', ''gawk'', ''python'', ''texinfo'', ''gawk'']"

definition bootstrap_variants :: "(string \<times> string) list" where
  "bootstrap_variants =
     [(''gcc'', ''[build_type=Release ~bootstrap +strip]''), (''mpc'', ''[libs=static]''),
      (''gmp'', ''[libs=static]''), (''mpfr'', ''[libs=static]''),
      (''zstd'', ''[libs=static]''), (''zlib'', ''[~shared]'')]"

definition gcc_variants :: "(string \<times> string) list" where
  "gcc_variants =
     [(''gcc'', ''[build_type=Release +profiled +strip]''), (''mpc'', ''[libs=static]''),
      (''gmp'', ''[libs=static]''), (''mpfr'', ''[libs=static]''),
      (''zstd'', ''[libs=static]''), (''zlib'', ''[~shared]'')]"

text \<open>The loop over the declared llvm specs: two independent \<open>if\<close>s, no \<open>else\<close>.\<close>

fun llvm_loop :: "string list \<Rightarrow> string list \<Rightarrow> string list" where
  "llvm_loop acc [] = acc"
| "llvm_loop acc (spec # rest) =
     (let acc1 = (if prefix ''nvhpc'' spec then acc @ [spec @ ''~mpi~blas~lapack''] else acc);
          acc2 = (if prefix ''llvm'' spec then acc1 @ [spec @ '' +clang targets=x86 ~gold ^ninja@kitware''] else acc1)
      in llvm_loop acc2 rest)"

definition generate_compiler_specs :: "Recipe \<Rightarrow> (string \<times> raw_stage) list \<Rightarrow> exn + Recipe" where
  "generate_compiler_specs self raw =
     (case map_of raw ''bootstrap'' of
        None \<Rightarrow> Inl (KeyError ''bootstrap'')
      | Some b \<Rightarrow>
     (case raw_specs b of
        None \<Rightarrow> Inl (KeyError ''specs'')
      | Some [] \<Rightarrow> Inl (IndexError ''list index out of range'')
      | Some (bootstrap_spec # _) \<Rightarrow>
     (let bootstrap = \<lparr>stage_packages = Some \<lparr>external = toolchain_external, variants = bootstrap_variants\<rparr>,
                       stage_specs = [bootstrap_spec @ '' languages=c,c++'', ''squashfs default_compression=zstd''],
                       stage_requires = None\<rparr>
      in
     (case map_of raw ''gcc'' of
        None \<Rightarrow> Inl (KeyError ''gcc'')
      | Some g \<Rightarrow>
     (case raw_specs g of
        None \<Rightarrow> Inl (KeyError ''specs'')
      | Some gcc_specs \<Rightarrow>
     (let gcc = \<lparr>stage_packages = Some \<lparr>external = toolchain_external, variants = gcc_variants\<rparr>,
                 stage_specs = gcc_specs,
                 stage_requires = Some bootstrap_spec\<rparr>
      in
     (case map_of raw ''llvm'' of
        None \<Rightarrow> Inr (self\<lparr>compilers := [(''bootstrap'', bootstrap), (''gcc'', gcc)]\<rparr>)
      | Some l \<Rightarrow>
     (case raw_specs l of
        None \<Rightarrow> Inl (KeyError ''specs'')
      | Some llvm_specs \<Rightarrow>
     (case raw_requires l of
        None \<Rightarrow> Inl (KeyError ''requires'')
      | Some req \<Rightarrow>
          Inr (self\<lparr>compilers :=
                 [(''bootstrap'', bootstrap), (''gcc'', gcc),
                  (''llvm'', \<lparr>stage_packages = None, stage_specs = llvm_loop [] llvm_specs,
                              stage_requires = Some req\<rparr>)]\<rparr>))))))))))"

section \<open>Reading a result\<close>

text \<open>\<open>compilers[name]\<close> of the object a successful \<open>generate_compiler_specs\<close> leaves.\<close>

definition stage_of :: "string \<Rightarrow> exn + Recipe \<Rightarrow> stage option" where
  "stage_of name r = (case r of Inl e \<Rightarrow> None | Inr self \<Rightarrow> map_of (compilers self) name)"

text \<open>The llvm stage is optional; where it is declared, the resolver reads its
  \<open>specs\<close> and its \<open>requires\<close>.\<close>

definition llvm_ok :: "(string \<times> raw_stage) list \<Rightarrow> bool" where
  "llvm_ok raw =
     (case map_of raw ''llvm'' of
        None \<Rightarrow> True
      | Some l \<Rightarrow> raw_specs l \<noteq> None \<and> raw_requires l \<noteq> None)"

text \<open>The value of the local \<open>version_opt\<close> when the resolver expands the \<open>mpi\<close>
  string \<open>m\<close>; \<open>None\<close> when the implementation is not in the table.\<close>

definition version_clause :: "string \<Rightarrow> string option" where
  "version_clause m =
     (case split_mpi m of
        (mpi_impl, mpi_ver) \<Rightarrow>
          (case map_of valid_mpi_specs mpi_impl of
             Some (default_ver, options) \<Rightarrow> Some (version_opt mpi_ver default_ver)
           | None \<Rightarrow> None))"

text \<open>Reading the store.  The list a set refers to, if any; the \<open>mpi\<close> string of a
  set, if any; its \<open>gpu\<close> value; the content of its \<open>specs\<close>.\<close>

definition specs_ref :: "heap \<Rightarrow> addr \<Rightarrow> addr option" where
  "specs_ref h a = (case specs (sets h a) of Some (Some l) \<Rightarrow> Some l | _ \<Rightarrow> None)"

definition mpi_string :: "package_set \<Rightarrow> string option" where
  "mpi_string c = (case mpi c of Some m \<Rightarrow> m | None \<Rightarrow> None)"

definition gpu_value :: "package_set \<Rightarrow> pyval" where
  "gpu_value c = (case gpu c of Some g \<Rightarrow> g | None \<Rightarrow> PNone)"

definition declared :: "heap \<Rightarrow> addr \<Rightarrow> string list" where
  "declared h a = (case specs_ref h a of Some l \<Rightarrow> lists h l | None \<Rightarrow> [])"

text \<open>The mapping of a set as a value, its list read from the store, and the whole
  mapping as a value: what a deep comparison of two results compares.\<close>

definition set_value :: "heap \<Rightarrow> addr \<Rightarrow> string list option option \<times> string option option \<times> pyval option" where
  "set_value h a =
     (map_option (map_option (lists h)) (specs (sets h a)), mpi (sets h a), gpu (sets h a))"

definition packages_value ::
    "heap \<Rightarrow> package_sets \<Rightarrow> (string \<times> string list option option \<times> string option option \<times> pyval option) list" where
  "packages_value h raw = map (\<lambda>(name, a). (name, set_value h a)) raw"

text \<open>A set with an \<open>mpi\<close> that passes the truth test; a set whose \<open>mpi\<close> names an
  implementation that is not a key of \<open>valid_mpi_specs\<close>; the spec the second loop
  appends for a set (none without an \<open>mpi\<close>).\<close>

definition has_mpi :: "package_set \<Rightarrow> bool" where
  "has_mpi c = (case mpi_string c of Some m \<Rightarrow> m \<noteq> [] | None \<Rightarrow> False)"

definition unsupported_mpi :: "package_set \<Rightarrow> bool" where
  "unsupported_mpi c =
     (case mpi_string c of
        Some m \<Rightarrow> m \<noteq> [] \<and> map_of valid_mpi_specs (fst (split_mpi m)) = None
      | None \<Rightarrow> False)"

definition appended :: "package_set \<Rightarrow> string list" where
  "appended c =
     (case mpi_string c of
        Some m \<Rightarrow> if m = [] then []
                  else (case mpi_spec m (gpu_value c) of Inr spec \<Rightarrow> [spec] | Inl e \<Rightarrow> [])
      | None \<Rightarrow> [])"

text \<open>Two sets hold one list: they are one mapping, or their mappings refer to the
  same list of the loaded document.\<close>

definition same_list :: "heap \<Rightarrow> addr \<Rightarrow> addr \<Rightarrow> bool" where
  "same_list h a b = (a = b \<or> (specs_ref h a \<noteq> None \<and> specs_ref h a = specs_ref h b))"

text \<open>The lists the sets of a mapping refer to are lists of the store, below the
  address of the next new list.\<close>

definition allocated :: "heap \<Rightarrow> package_sets \<Rightarrow> bool" where
  "allocated h raw = list_all (\<lambda>(name, a). case specs_ref h a of Some l \<Rightarrow> l < fresh h | None \<Rightarrow> True) raw"

text \<open>The specs the sets \<open>xs\<close> append to the list of the set \<open>a\<close>, in the order of
  \<open>xs\<close>: those of the sets that hold the same list.\<close>

definition gained :: "heap \<Rightarrow> addr \<Rightarrow> package_sets \<Rightarrow> string list" where
  "gained h a xs = concat (map (\<lambda>(name, b). if same_list h a b then appended (sets h b) else []) xs)"

text \<open>The store \<open>h\<close> after every list has received the specs of the sets of \<open>xs\<close> that
  refer to it; shown below to be what the second loop leaves.\<close>

definition visited :: "heap \<Rightarrow> package_sets \<Rightarrow> heap" where
  "visited h xs =
     h\<lparr>lists := (\<lambda>l. lists h l
          @ concat (map (\<lambda>(name, b). if specs_ref h b = Some l then appended (sets h b) else []) xs))\<rparr>"

text \<open>The store of a loaded document: the mappings \<open>cs\<close> and the lists \<open>ls\<close>, each at
  the address of its position.\<close>

definition store :: "package_set list \<Rightarrow> string list list \<Rightarrow> heap" where
  "store cs ls =
     \<lparr>sets = (\<lambda>a. if a < length cs then cs ! a else \<lparr>specs = None, mpi = None, gpu = None\<rparr>),
      lists = (\<lambda>l. if l < length ls then ls ! l else []),
      fresh = length ls\<rparr>"

section \<open>Compiler stages\<close>

lemma not_both_prefixes: "prefix ''nvhpc'' s \<Longrightarrow> \<not> prefix ''llvm'' s"
  by (cases s) auto

lemma llvm_loop_filter:
  "llvm_loop acc xs =
     acc @ map (\<lambda>s. if prefix ''nvhpc'' s then s @ ''~mpi~blas~lapack''
                     else s @ '' +clang targets=x86 ~gold ^ninja@kitware'')
               (filter (\<lambda>s. prefix ''nvhpc'' s \<or> prefix ''llvm'' s) xs)"
proof (induction xs arbitrary: acc)
  case Nil
  then show ?case by simp
next
  case (Cons x xs)
  show ?case
  proof (cases "prefix ''nvhpc'' x")
    case True
    then have "\<not> prefix ''llvm'' x" by (rule not_both_prefixes)
    with True show ?thesis by (simp add: Cons.IH)
  next
    case False
    then show ?thesis by (simp add: Cons.IH)
  qed
qed

text \<open>The resolved plan of a well-formed input, without and with an llvm stage.\<close>

lemma generate_compiler_specs_no_llvm:
  assumes "map_of raw ''bootstrap'' = Some b" and "raw_specs b = Some (x # xs)"
    and "map_of raw ''gcc'' = Some g" and "raw_specs g = Some gs"
    and "map_of raw ''llvm'' = None"
  shows "generate_compiler_specs self raw =
    Inr (self\<lparr>compilers :=
      [(''bootstrap'', \<lparr>stage_packages = Some \<lparr>external = toolchain_external, variants = bootstrap_variants\<rparr>,
                       stage_specs = [x @ '' languages=c,c++'', ''squashfs default_compression=zstd''],
                       stage_requires = None\<rparr>),
       (''gcc'', \<lparr>stage_packages = Some \<lparr>external = toolchain_external, variants = gcc_variants\<rparr>,
                 stage_specs = gs, stage_requires = Some x\<rparr>)]\<rparr>)"
  using assms by (simp add: generate_compiler_specs_def)

lemma generate_compiler_specs_llvm:
  assumes "map_of raw ''bootstrap'' = Some b" and "raw_specs b = Some (x # xs)"
    and "map_of raw ''gcc'' = Some g" and "raw_specs g = Some gs"
    and "map_of raw ''llvm'' = Some l" and "raw_specs l = Some ls" and "raw_requires l = Some r"
  shows "generate_compiler_specs self raw =
    Inr (self\<lparr>compilers :=
      [(''bootstrap'', \<lparr>stage_packages = Some \<lparr>external = toolchain_external, variants = bootstrap_variants\<rparr>,
                       stage_specs = [x @ '' languages=c,c++'', ''squashfs default_compression=zstd''],
                       stage_requires = None\<rparr>),
       (''gcc'', \<lparr>stage_packages = Some \<lparr>external = toolchain_external, variants = gcc_variants\<rparr>,
                 stage_specs = gs, stage_requires = Some x\<rparr>),
       (''llvm'', \<lparr>stage_packages = None, stage_specs = llvm_loop [] ls, stage_requires = Some r\<rparr>)]\<rparr>)"
  using assms by (simp add: generate_compiler_specs_def)

text \<open>
  C9.  For a raw compiler input whose bootstrap stage declares the specs \<open>x # xs\<close> and
  whose gcc stage declares specs (an llvm stage, if any, giving its specs and its
  requires), resolution succeeds and the \<open>requires\<close> of the resolved gcc stage is \<open>x\<close>:
  the first bootstrap spec as declared, without the language suffix.
\<close>

theorem gcc_requires_bootstrap_spec:
  assumes "map_of raw ''bootstrap'' = Some b" and "raw_specs b = Some (x # xs)"
    and "map_of raw ''gcc'' = Some g" and "raw_specs g = Some gs"
    and "llvm_ok raw"
  shows "map_option stage_requires (stage_of ''gcc'' (generate_compiler_specs self raw)) = Some (Some x)"
proof (cases "map_of raw ''llvm''")
  case None
  show ?thesis
    by (simp add: generate_compiler_specs_no_llvm [OF assms(1-4) None] stage_of_def)
next
  case (Some l)
  with assms(5) obtain ls r where "raw_specs l = Some ls" and "raw_requires l = Some r"
    by (auto simp: llvm_ok_def)
  then show ?thesis
    by (simp add: generate_compiler_specs_llvm [OF assms(1-4) Some] stage_of_def)
qed

theorem gcc_requires_bootstrap_spec_witness:
  "map_option stage_requires (stage_of ''gcc'' (generate_compiler_specs \<lparr>compilers = [], packages = None\<rparr>
     [(''bootstrap'', \<lparr>raw_specs = Some [''gcc@11'', ''binutils''], raw_requires = None\<rparr>),
      (''gcc'', \<lparr>raw_specs = Some [''gcc@12''], raw_requires = None\<rparr>)]))
   = Some (Some ''gcc@11'')"
  using gcc_requires_bootstrap_spec [of
     "[(''bootstrap'', \<lparr>raw_specs = Some [''gcc@11'', ''binutils''], raw_requires = None\<rparr>),
       (''gcc'', \<lparr>raw_specs = Some [''gcc@12''], raw_requires = None\<rparr>)]"
     "\<lparr>raw_specs = Some [''gcc@11'', ''binutils''], raw_requires = None\<rparr>" "''gcc@11''" "[''binutils'']"
     "\<lparr>raw_specs = Some [''gcc@12''], raw_requires = None\<rparr>" "[''gcc@12'']"
     "\<lparr>compilers = [], packages = None\<rparr>"]
  by (simp add: llvm_ok_def)

text \<open>
  C10.  Under the same conditions the resolved bootstrap stage has exactly two specs,
  the first declared spec with \<open>languages=c,c++\<close> appended and the squashfs spec; the
  specs declared after the first are not read: the input that declares the first spec
  alone resolves to the same plan.
\<close>

theorem bootstrap_stage_specs:
  assumes "map_of raw ''bootstrap'' = Some b" and "raw_specs b = Some (x # xs)"
    and "map_of raw ''gcc'' = Some g" and "raw_specs g = Some gs"
    and "llvm_ok raw"
  shows "map_option stage_specs (stage_of ''bootstrap'' (generate_compiler_specs self raw))
           = Some [x @ '' languages=c,c++'', ''squashfs default_compression=zstd'']
       \<and> generate_compiler_specs self (AList.update ''bootstrap'' (b\<lparr>raw_specs := Some [x]\<rparr>) raw)
           = generate_compiler_specs self raw"
proof -
  let ?raw' = "AList.update ''bootstrap'' (b\<lparr>raw_specs := Some [x]\<rparr>) raw"
  have b': "map_of ?raw' ''bootstrap'' = Some (b\<lparr>raw_specs := Some [x]\<rparr>)"
    by (simp add: update_conv')
  have s': "raw_specs (b\<lparr>raw_specs := Some [x]\<rparr>) = Some [x]" by simp
  have g': "map_of ?raw' ''gcc'' = Some g"
    using assms(3) by (simp add: update_conv')
  have l': "map_of ?raw' ''llvm'' = map_of raw ''llvm''"
    by (simp add: update_conv')
  show ?thesis
  proof (cases "map_of raw ''llvm''")
    case None
    from None l' have n': "map_of ?raw' ''llvm'' = None" by simp
    show ?thesis
      by (simp add: generate_compiler_specs_no_llvm [OF assms(1-4) None]
          generate_compiler_specs_no_llvm [OF b' s' g' assms(4) n'] stage_of_def)
  next
    case (Some l)
    with assms(5) obtain ls r where ls: "raw_specs l = Some ls" and r: "raw_requires l = Some r"
      by (auto simp: llvm_ok_def)
    from Some l' have n': "map_of ?raw' ''llvm'' = Some l" by simp
    show ?thesis
      by (simp add: generate_compiler_specs_llvm [OF assms(1-4) Some ls r]
          generate_compiler_specs_llvm [OF b' s' g' assms(4) n' ls r] stage_of_def)
  qed
qed

theorem bootstrap_stage_specs_witness:
  "map_option stage_specs (stage_of ''bootstrap'' (generate_compiler_specs \<lparr>compilers = [], packages = None\<rparr>
     [(''bootstrap'', \<lparr>raw_specs = Some [''gcc@11'', ''binutils''], raw_requires = None\<rparr>),
      (''gcc'', \<lparr>raw_specs = Some [''gcc@12''], raw_requires = None\<rparr>)]))
   = Some [''gcc@11 languages=c,c++'', ''squashfs default_compression=zstd'']"
  using bootstrap_stage_specs [of
     "[(''bootstrap'', \<lparr>raw_specs = Some [''gcc@11'', ''binutils''], raw_requires = None\<rparr>),
       (''gcc'', \<lparr>raw_specs = Some [''gcc@12''], raw_requires = None\<rparr>)]"
     "\<lparr>raw_specs = Some [''gcc@11'', ''binutils''], raw_requires = None\<rparr>" "''gcc@11''" "[''binutils'']"
     "\<lparr>raw_specs = Some [''gcc@12''], raw_requires = None\<rparr>" "[''gcc@12'']"
     "\<lparr>compilers = [], packages = None\<rparr>"]
  by (simp add: llvm_ok_def)

text \<open>
  C3, as the code has it.  The resolved llvm specs are the declared specs that begin
  with \<open>nvhpc\<close> or with \<open>llvm\<close>, in the declared order, each with its suffix
  appended; a declared spec with any other prefix is left out.
\<close>

theorem llvm_stage_specs:
  assumes "map_of raw ''bootstrap'' = Some b" and "raw_specs b = Some (x # xs)"
    and "map_of raw ''gcc'' = Some g" and "raw_specs g = Some gs"
    and "map_of raw ''llvm'' = Some l" and "raw_specs l = Some ls" and "raw_requires l = Some r"
  shows "map_option stage_specs (stage_of ''llvm'' (generate_compiler_specs self raw)) =
     Some (map (\<lambda>s. if prefix ''nvhpc'' s then s @ ''~mpi~blas~lapack''
                     else s @ '' +clang targets=x86 ~gold ^ninja@kitware'')
               (filter (\<lambda>s. prefix ''nvhpc'' s \<or> prefix ''llvm'' s) ls))"
  by (simp add: generate_compiler_specs_llvm [OF assms] stage_of_def llvm_loop_filter)

theorem llvm_stage_specs_witness:
  "map_option stage_specs (stage_of ''llvm'' (generate_compiler_specs \<lparr>compilers = [], packages = None\<rparr>
     [(''bootstrap'', \<lparr>raw_specs = Some [''gcc@11''], raw_requires = None\<rparr>),
      (''gcc'', \<lparr>raw_specs = Some [''gcc@12''], raw_requires = None\<rparr>),
      (''llvm'', \<lparr>raw_specs = Some [''nvhpc@22.11'', ''clang@14'', ''llvm@15''], raw_requires = Some ''gcc@12''\<rparr>)]))
   = Some [''nvhpc@22.11~mpi~blas~lapack'', ''llvm@15 +clang targets=x86 ~gold ^ninja@kitware'']"
  using llvm_stage_specs [of
     "[(''bootstrap'', \<lparr>raw_specs = Some [''gcc@11''], raw_requires = None\<rparr>),
       (''gcc'', \<lparr>raw_specs = Some [''gcc@12''], raw_requires = None\<rparr>),
       (''llvm'', \<lparr>raw_specs = Some [''nvhpc@22.11'', ''clang@14'', ''llvm@15''], raw_requires = Some ''gcc@12''\<rparr>)]"
     "\<lparr>raw_specs = Some [''gcc@11''], raw_requires = None\<rparr>" "''gcc@11''" "[]"
     "\<lparr>raw_specs = Some [''gcc@12''], raw_requires = None\<rparr>" "[''gcc@12'']"
     "\<lparr>raw_specs = Some [''nvhpc@22.11'', ''clang@14'', ''llvm@15''], raw_requires = Some ''gcc@12''\<rparr>"
     "[''nvhpc@22.11'', ''clang@14'', ''llvm@15'']" "''gcc@12''" "\<lparr>compilers = [], packages = None\<rparr>"]
  by simp

text \<open>
  C3, as the claim states it, fails: the llvm stage that declares the one spec
  \<open>clang@14\<close> resolves to no spec at all, so the declared spec is not passed through.
\<close>

theorem llvm_other_prefix_counterexample:
  "map_option stage_specs (stage_of ''llvm'' (generate_compiler_specs \<lparr>compilers = [], packages = None\<rparr>
     [(''bootstrap'', \<lparr>raw_specs = Some [''gcc@11''], raw_requires = None\<rparr>),
      (''gcc'', \<lparr>raw_specs = Some [''gcc@12''], raw_requires = None\<rparr>),
      (''llvm'', \<lparr>raw_specs = Some [''clang@14''], raw_requires = Some ''gcc@12''\<rparr>)]))
   = Some []"
  by (simp add: generate_compiler_specs_def stage_of_def)

section \<open>Configuration and mirror\<close>

text \<open>
  C4.  A configuration with no \<open>system\<close> key does not get an error that names the
  system: with no mirror key file checked before, the local \<open>p\<close> that the message
  formats is unbound; with one, the message names the key file.
\<close>

theorem validate_recipe_config_missing_system:
  "validate_recipe_config fs \<lparr>mirror = None, system = None\<rparr> = Inl (UnboundLocalError ''p'')
   \<and> validate_recipe_config (\<lambda>p. True) \<lparr>mirror = Some (Some [(''key'', PStr ''/keys/sign.key'')]), system = None\<rparr>
       = Inl (FileNotFoundError (''The  '' @ [CHR 0x27] @ ''/keys/sign.key'' @ [CHR 0x27] @ '' does not exist''))"
  by (simp add: validate_recipe_config_def check_mirror_def os_path_isfile_def)

text \<open>
  C7, as the code has it.  A null mirror configuration and an empty one both give no
  source and no key.  A mapping with at least one entry gives the key it holds (null
  if it holds none) and, as source, the candidate when \<open>enable\<close> is missing or true,
  and null otherwise.
\<close>

theorem Mirror_init_policy:
  "Mirror_init None src = \<lparr>key = PNone, source = None\<rparr>
   \<and> Mirror_init (Some []) src = \<lparr>key = PNone, source = None\<rparr>
   \<and> (m \<noteq> [] \<longrightarrow>
        key (Mirror_init (Some m) src) = (case map_of m ''key'' of None \<Rightarrow> PNone | Some v \<Rightarrow> v)
      \<and> (map_of m ''enable'' = None \<longrightarrow> source (Mirror_init (Some m) src) = src)
      \<and> (\<forall>v. map_of m ''enable'' = Some v \<longrightarrow>
             source (Mirror_init (Some m) src) = (if truthy v then src else None)))"
  by (simp add: Mirror_init_def Let_def)

theorem Mirror_init_policy_witness:
  "Mirror_init (Some [(''enable'', PBool True), (''key'', PStr ''/x'')]) (Some ''/recipe/mirrors.yaml'')
     = \<lparr>key = PStr ''/x'', source = Some ''/recipe/mirrors.yaml''\<rparr>
   \<and> source (Mirror_init (Some [(''enable'', PBool False)]) (Some ''/recipe/mirrors.yaml'')) = None
   \<and> source (Mirror_init (Some [(''key'', PStr ''/x'')]) (Some ''/recipe/mirrors.yaml'')) = Some ''/recipe/mirrors.yaml''"
  using Mirror_init_policy [of "Some ''/recipe/mirrors.yaml''" "[(''enable'', PBool True), (''key'', PStr ''/x'')]"]
    Mirror_init_policy [of "Some ''/recipe/mirrors.yaml''" "[(''enable'', PBool False)]"]
    Mirror_init_policy [of "Some ''/recipe/mirrors.yaml''" "[(''key'', PStr ''/x'')]"]
  by (cases "Mirror_init (Some [(''enable'', PBool True), (''key'', PStr ''/x'')]) (Some ''/recipe/mirrors.yaml'')") simp

text \<open>
  C7, as the claim states it, fails on the empty mapping: it is not null and has no
  \<open>enable\<close> field, so the claim gives it the candidate as source, and the code gives
  it none.
\<close>

theorem Mirror_init_empty_mapping_counterexample:
  "source (Mirror_init (Some []) (Some ''/recipe/mirrors.yaml'')) \<noteq> Some ''/recipe/mirrors.yaml''"
  by (simp add: Mirror_init_def)

section \<open>White space and the MPI table\<close>

lemma isspace_simps [simp]:
  "\<not> isspace CHR ''m''" "\<not> isspace CHR ''c''" "\<not> isspace CHR ''@''" "isspace CHR '' ''"
  "\<not> isspace CHR ''0''" "\<not> isspace CHR ''y''" "\<not> isspace CHR ''h''" "\<not> isspace CHR ''2''"
  "\<not> isspace CHR ''m''"
  by (simp_all add: isspace_def)

lemma rstrip_Nil [simp]: "rstrip [] = []"
  by (simp add: rstrip_def)

lemma rstrip_append_nonspace: "\<not> isspace c \<Longrightarrow> rstrip (xs @ c # ys) = xs @ c # rstrip ys"
  by (simp add: rstrip_def dropWhile_append)

lemma rstrip_eq_Nil: "rstrip s = [] \<longleftrightarrow> (\<forall>c \<in> set s. isspace c)"
  by (simp add: rstrip_def dropWhile_eq_Nil_conv)

lemma rstrip_last: "rstrip s \<noteq> [] \<Longrightarrow> \<not> isspace (last (rstrip s))"
  unfolding rstrip_def by (simp add: last_rev hd_dropWhile)

lemma rstrip_idem: "rstrip (rstrip s) = rstrip s"
proof (cases "rstrip s = []")
  case True
  then show ?thesis by simp
next
  case False
  then have "\<not> isspace (last (rstrip s))" by (rule rstrip_last)
  moreover from False have "rstrip s = butlast (rstrip s) @ [last (rstrip s)]" by simp
  ultimately show ?thesis
    using rstrip_append_nonspace [of "last (rstrip s)" "butlast (rstrip s)" "[]"] by simp
qed

lemma rstrip_space_after: "rstrip (s @ '' '') = rstrip s"
  by (simp add: rstrip_def)

lemma table_cases:
  assumes "map_of valid_mpi_specs impl = Some (d, opts)"
  shows "(impl = ''cray-mpich-binary'' \<and> d = None \<and> opts = None)
       \<or> (impl = ''mpich'' \<and> d = Some ''4.1rc2'' \<and> opts = Some ''device=ch4 netmod=ofi +slurm'')
       \<or> (impl = ''mvapich2'' \<and> d = Some ''3.0a''
            \<and> opts = Some ''+xpmem fabrics=ch4ofi ch4_max_vcis=4 process_managers=slurm'')"
  using assms by (auto simp: valid_mpi_specs_def split: if_splits)

lemma table_impl:
  assumes "map_of valid_mpi_specs impl = Some x"
  shows "impl \<noteq> []" and "\<not> isspace (hd impl)" and "CHR ''@'' \<notin> set impl"
    and "\<not> isspace (last impl)"
  using assms by (auto simp: valid_mpi_specs_def isspace_def split: if_splits)

lemma dropWhile_isspace_id: "s \<noteq> [] \<Longrightarrow> \<not> isspace (hd s) \<Longrightarrow> dropWhile isspace s = s"
  by (cases s) simp_all

lemma strip_append_at:
  assumes "impl \<noteq> []" and "\<not> isspace (hd impl)"
  shows "strip (impl @ CHR ''@'' # ver) = impl @ CHR ''@'' # rstrip ver"
proof -
  have "dropWhile isspace (impl @ CHR ''@'' # ver) = impl @ CHR ''@'' # ver"
    using assms by (intro dropWhile_isspace_id) simp_all
  then show ?thesis
    using rstrip_append_nonspace [of "CHR ''@''" impl ver] by (simp add: strip_def)
qed

lemma split_at_first:
  assumes "CHR ''@'' \<notin> set impl"
  shows "takeWhile (\<lambda>c. c \<noteq> CHR ''@'') (impl @ CHR ''@'' # v) = impl"
    and "dropWhile (\<lambda>c. c \<noteq> CHR ''@'') (impl @ CHR ''@'' # v) = CHR ''@'' # v"
  using assms by (induction impl) auto

lemma split_mpi_version:
  assumes "map_of valid_mpi_specs impl = Some x"
  shows "split_mpi (impl @ CHR ''@'' # ver) = (impl, Some (rstrip ver))"
proof -
  note t = table_impl [OF assms]
  have "strip (impl @ CHR ''@'' # ver) = impl @ CHR ''@'' # rstrip ver"
    using t(1,2) by (rule strip_append_at)
  then show ?thesis
    using split_at_first [OF t(3), of "rstrip ver"] by (simp add: split_mpi_def Let_def)
qed

lemma set_strip: "set (strip s) \<subseteq> set s"
proof -
  have "set (rstrip t) \<subseteq> set t" for t
    using set_dropWhileD [of _ isspace "rev t"] by (auto simp: rstrip_def)
  moreover have "set (dropWhile isspace s) \<subseteq> set s"
    using set_dropWhileD [of _ isspace s] by auto
  ultimately show ?thesis unfolding strip_def by blast
qed

lemma split_mpi_no_at: "CHR ''@'' \<notin> set m \<Longrightarrow> split_mpi m = (strip m, None)"
  using set_strip [of m] by (auto simp: split_mpi_def Let_def)

lemma strip_table_impl:
  assumes "map_of valid_mpi_specs impl = Some x"
  shows "strip impl = impl"
proof -
  note t = table_impl [OF assms]
  from t(1) have "impl = butlast impl @ [last impl]" by simp
  then have "rstrip impl = impl"
    using rstrip_append_nonspace [OF t(4), of "butlast impl" "[]"] by simp
  then show ?thesis using t(1,2) by (simp add: strip_def dropWhile_isspace_id)
qed

lemma rstrip_nonspace_end: "s \<noteq> [] \<Longrightarrow> \<not> isspace (last s) \<Longrightarrow> rstrip s = s"
  using rstrip_append_nonspace [of "last s" "butlast s" "[]"] by simp

lemma strip_composed:
  assumes "map_of valid_mpi_specs impl = Some (d, opts)" and "v \<noteq> []" and "\<not> isspace (last v)"
  shows "strip (impl @ (''@'' @ v) @ '' '' @ (case opts of Some x \<Rightarrow> x | None \<Rightarrow> []))
           = impl @ ''@'' @ v @ (case opts of Some x \<Rightarrow> '' '' @ x | None \<Rightarrow> [])"
proof -
  note t = table_impl [OF assms(1)]
  let ?o = "(case opts of Some x \<Rightarrow> x | None \<Rightarrow> [])"
  have d: "dropWhile isspace (impl @ (''@'' @ v) @ '' '' @ ?o) = impl @ (''@'' @ v) @ '' '' @ ?o"
    using t(1,2) by (intro dropWhile_isspace_id) simp_all
  show ?thesis
  proof (cases opts)
    case None
    have "rstrip ((impl @ ''@'' @ v) @ '' '') = rstrip (impl @ ''@'' @ v)"
      by (rule rstrip_space_after)
    also have "\<dots> = impl @ ''@'' @ v"
      using assms(2,3) by (intro rstrip_nonspace_end) simp_all
    finally show ?thesis using d None by (simp add: strip_def)
  next
    case (Some x)
    with table_cases [OF assms(1)] have x: "x \<noteq> []" "\<not> isspace (last x)"
      by (auto simp: isspace_def)
    then have "rstrip (impl @ (''@'' @ v) @ '' '' @ x) = impl @ (''@'' @ v) @ '' '' @ x"
      by (intro rstrip_nonspace_end) simp_all
    then show ?thesis using d Some by (simp add: strip_def)
  qed
qed

lemma split_mpi_Some:
  assumes "split_mpi m = (impl, Some v)"
  shows "strip m = impl @ CHR ''@'' # v"
proof -
  let ?s = "strip m"
  let ?P = "\<lambda>c. c \<noteq> CHR ''@''"
  from assms have at: "CHR ''@'' \<in> set ?s" and i: "impl = takeWhile ?P ?s"
      and v: "v = tl (dropWhile ?P ?s)"
    by (auto simp: split_mpi_def Let_def split: if_splits)
  from at have "dropWhile ?P ?s \<noteq> []" by (auto simp: dropWhile_eq_Nil_conv)
  moreover from this have "hd (dropWhile ?P ?s) = CHR ''@''"
    using hd_dropWhile [of ?P ?s] by simp
  ultimately have "dropWhile ?P ?s = CHR ''@'' # v" using v by (cases "dropWhile ?P ?s") simp_all
  with i show ?thesis using takeWhile_dropWhile_id [of ?P ?s] by simp
qed

lemma rstrip_strip: "rstrip (strip m) = strip m"
  by (simp add: strip_def rstrip_idem)

lemma not_suffix_cray: "\<not> suffix '' cuda_arch=80'' ''cray-mpich-binary''"
  by (simp add: suffix_to_prefix)

lemma cray_spec:
  assumes "split_mpi m = (''cray-mpich-binary'', ver)"
  shows "strip (''cray-mpich-binary'' @ version_opt ver None @ '' '') = ''cray-mpich-binary''
       \<or> strip (''cray-mpich-binary'' @ version_opt ver None @ '' '') = strip m"
proof (cases "\<exists>v. ver = Some v \<and> v \<noteq> []")
  case False
  then have "version_opt ver None = []"
    by (cases ver) (auto simp: version_opt_def)
  then show ?thesis by (simp add: strip_def rstrip_def isspace_def)
next
  case True
  then obtain v where v: "ver = Some v" "v \<noteq> []" by blast
  with assms have m: "strip m = ''cray-mpich-binary'' @ CHR ''@'' # v"
    using split_mpi_Some by blast
  have "rstrip (''cray-mpich-binary'' @ CHR ''@'' # v) = ''cray-mpich-binary'' @ CHR ''@'' # rstrip v"
    by (rule rstrip_append_nonspace) simp
  with m have rv: "rstrip v = v" using rstrip_strip [of m] by simp
  have "strip (''cray-mpich-binary'' @ CHR ''@'' # (v @ '' ''))
          = rstrip (''cray-mpich-binary'' @ CHR ''@'' # (v @ '' ''))"
    by (simp add: strip_def)
  also have "\<dots> = ''cray-mpich-binary'' @ CHR ''@'' # rstrip (v @ '' '')"
    by (rule rstrip_append_nonspace) simp
  also have "\<dots> = ''cray-mpich-binary'' @ CHR ''@'' # v"
    using rv by (simp add: rstrip_space_after)
  finally show ?thesis using v m by (simp add: version_opt_def)
qed

section \<open>The MPI spec\<close>

lemma mpi_spec_supported:
  assumes "split_mpi m = (impl, ver)" and "map_of valid_mpi_specs impl = Some (d, opts)"
  shows "mpi_spec m g =
     Inr (strip (impl @ version_opt ver d @ '' '' @ (case opts of Some x \<Rightarrow> x | None \<Rightarrow> []))
          @ (if truthy g \<and> impl \<noteq> ''cray-mpich-binary'' then '' cuda_arch=80'' else []))"
  using assms by (simp add: mpi_spec_def Let_def)

lemma mpi_spec_unsupported:
  assumes "map_of valid_mpi_specs (fst (split_mpi m)) = None"
  shows "mpi_spec m g = Inl (Exception (''Unsupported mpi: '' @ fst (split_mpi m)))"
  using assms by (auto simp: mpi_spec_def split: prod.splits)

lemma mpi_spec_total:
  "map_of valid_mpi_specs (fst (split_mpi m)) \<noteq> None \<Longrightarrow> \<exists>spec. mpi_spec m g = Inr spec"
  by (auto simp: mpi_spec_def Let_def split: prod.splits)

lemmas mpi_eval = mpi_spec_def split_mpi_def strip_def rstrip_def isspace_def valid_mpi_specs_def
  version_opt_def Let_def

lemma mpi_spec_mpich:
  "mpi_spec ''mpich'' g = Inr (''mpich@4.1rc2 device=ch4 netmod=ofi +slurm''
      @ (if truthy g then '' cuda_arch=80'' else []))"
  by (simp add: mpi_eval)

lemma mpi_spec_cray: "mpi_spec ''cray-mpich-binary'' g = Inr ''cray-mpich-binary''"
  by (simp add: mpi_eval)

text \<open>
  C5, as the code has it.  For an implementation of the table and an \<open>mpi\<close> string
  \<open>impl@ver\<close>: the string is trimmed before it is split, so the version is \<open>ver\<close>
  without its trailing white space; when that is not empty the version clause is
  \<open>@\<close> followed by it, whatever the table's default, and the resolved spec is the
  implementation, that clause, the options and the GPU clause.  When it is empty
  (as in \<open>mpich@\<close>), and when the string has no \<open>@\<close>, the clause is the table's
  default version, and empty when the table has none.
\<close>

theorem explicit_version_overrides_default:
  assumes "map_of valid_mpi_specs impl = Some (default_ver, options)"
  shows "(rstrip ver \<noteq> [] \<longrightarrow>
            version_clause (impl @ ''@'' @ ver) = Some (''@'' @ rstrip ver)
          \<and> mpi_spec (impl @ ''@'' @ ver) g
              = Inr (impl @ ''@'' @ rstrip ver @ (case options of Some x \<Rightarrow> '' '' @ x | None \<Rightarrow> [])
                     @ (if truthy g \<and> impl \<noteq> ''cray-mpich-binary'' then '' cuda_arch=80'' else [])))
       \<and> (rstrip ver = [] \<longrightarrow> version_clause (impl @ ''@'' @ ver)
             = Some (case default_ver of Some d \<Rightarrow> ''@'' @ d | None \<Rightarrow> []))
       \<and> (CHR ''@'' \<notin> set m \<and> strip m = impl \<longrightarrow> version_clause m
             = Some (case default_ver of Some d \<Rightarrow> ''@'' @ d | None \<Rightarrow> []))"
proof -
  have d: "(case default_ver of Some d \<Rightarrow> if d \<noteq> [] then ''@'' @ d else [] | None \<Rightarrow> [])
         = (case default_ver of Some d \<Rightarrow> ''@'' @ d | None \<Rightarrow> [])"
    using table_cases [OF assms] by auto
  have v: "version_clause (impl @ ''@'' @ ver)
         = Some (if rstrip ver \<noteq> [] then ''@'' @ rstrip ver
                 else (case default_ver of Some d \<Rightarrow> ''@'' @ d | None \<Rightarrow> []))"
    using assms d by (simp add: version_clause_def split_mpi_version [OF assms] version_opt_def)
  have n: "version_clause m = Some (case default_ver of Some d \<Rightarrow> ''@'' @ d | None \<Rightarrow> [])"
    if "CHR ''@'' \<notin> set m" and "strip m = impl"
    using that assms d by (simp add: version_clause_def split_mpi_no_at version_opt_def)
  have s: "mpi_spec (impl @ ''@'' @ ver) g
              = Inr (impl @ ''@'' @ rstrip ver @ (case options of Some x \<Rightarrow> '' '' @ x | None \<Rightarrow> [])
                     @ (if truthy g \<and> impl \<noteq> ''cray-mpich-binary'' then '' cuda_arch=80'' else []))"
    if r: "rstrip ver \<noteq> []"
  proof -
    from r have l: "\<not> isspace (last (rstrip ver))" by (rule rstrip_last)
    have sp: "split_mpi (impl @ ''@'' @ ver) = (impl, Some (rstrip ver))"
      using split_mpi_version [OF assms] by simp
    have vo: "version_opt (Some (rstrip ver)) default_ver = ''@'' @ rstrip ver"
      using r by (simp add: version_opt_def)
    show ?thesis
      unfolding mpi_spec_supported [OF sp assms] vo strip_composed [OF assms r l] by simp
  qed
  from v n s show ?thesis by simp
qed

theorem explicit_version_overrides_default_witness:
  "version_clause (''mpich'' @ ''@'' @ ''3.4.3'') = Some (''@'' @ ''3.4.3'')
   \<and> mpi_spec (''mpich'' @ ''@'' @ ''3.4.3'') PNone = Inr ''mpich@3.4.3 device=ch4 netmod=ofi +slurm''
   \<and> version_clause ''cray-mpich-binary'' = Some []
   \<and> version_clause ''mvapich2'' = Some ''@3.0a''"
  using explicit_version_overrides_default [where impl = "''mpich''" and default_ver = "Some ''4.1rc2''"
        and options = "Some ''device=ch4 netmod=ofi +slurm''" and ver = "''3.4.3''" and g = PNone
        and m = "''mpich''"]
    explicit_version_overrides_default [where impl = "''cray-mpich-binary''" and default_ver = None
        and options = None and ver = "[]" and g = PNone and m = "''cray-mpich-binary''"]
    explicit_version_overrides_default [where impl = "''mvapich2''" and default_ver = "Some ''3.0a''"
        and options = "Some ''+xpmem fabrics=ch4ofi ch4_max_vcis=4 process_managers=slurm''"
        and ver = "[]" and g = PNone and m = "''mvapich2''"]
  by (simp add: valid_mpi_specs_def strip_def rstrip_def isspace_def)

text \<open>
  C5, as the claim states it, fails on an empty version: for \<open>mpich@\<close> the claim
  gives the clause \<open>@\<close>, and the code gives the default \<open>@4.1rc2\<close>.
\<close>

theorem empty_version_counterexample:
  "version_clause ''mpich@'' = Some ''@4.1rc2''
   \<and> mpi_spec ''mpich@'' PNone = Inr ''mpich@4.1rc2 device=ch4 netmod=ofi +slurm''"
  by (simp add: version_clause_def mpi_eval)

text \<open>
  C6, as the code has it.  For a true \<open>gpu\<close> and an implementation of the table,
  the composed spec ends with \<open>cuda_arch=80\<close> after a space exactly when the
  implementation is not \<open>cray-mpich-binary\<close>, provided the \<open>mpi\<close> string itself
  (trimmed) does not already end so.
\<close>

theorem cuda_arch_clause:
  assumes "truthy g" and "split_mpi m = (impl, ver)"
    and "map_of valid_mpi_specs impl = Some (d, opts)"
    and "\<not> suffix '' cuda_arch=80'' (strip m)"
  shows "\<exists>spec. mpi_spec m g = Inr spec
           \<and> (suffix '' cuda_arch=80'' spec \<longleftrightarrow> impl \<noteq> ''cray-mpich-binary'')"
proof (cases "impl = ''cray-mpich-binary''")
  case False
  with assms(1) show ?thesis
    by (simp add: mpi_spec_supported [OF assms(2,3)] suffix_def)
next
  case True
  with assms(3) have "d = None" "opts = None" using table_cases by auto
  with True assms(1) have s: "mpi_spec m g = Inr (strip (''cray-mpich-binary'' @ version_opt ver None @ '' ''))"
    by (simp add: mpi_spec_supported [OF assms(2,3)])
  from cray_spec [of m ver] assms(2) True assms(4)
  have "\<not> suffix '' cuda_arch=80'' (strip (''cray-mpich-binary'' @ version_opt ver None @ '' ''))"
    using not_suffix_cray by auto
  with s True show ?thesis by simp
qed

theorem cuda_arch_clause_witness:
  "(\<exists>spec. mpi_spec ''mvapich2'' (PBool True) = Inr spec
       \<and> (suffix '' cuda_arch=80'' spec \<longleftrightarrow> ''mvapich2'' \<noteq> ''cray-mpich-binary''))
   \<and> (\<exists>spec. mpi_spec ''cray-mpich-binary'' (PBool True) = Inr spec
       \<and> (suffix '' cuda_arch=80'' spec \<longleftrightarrow> ''cray-mpich-binary'' \<noteq> ''cray-mpich-binary''))"
  using cuda_arch_clause [of "PBool True" "''mvapich2''" "''mvapich2''" None "Some ''3.0a''"
        "Some ''+xpmem fabrics=ch4ofi ch4_max_vcis=4 process_managers=slurm''"]
    cuda_arch_clause [of "PBool True" "''cray-mpich-binary''" "''cray-mpich-binary''" None None None]
  by (simp add: split_mpi_def strip_def rstrip_def isspace_def valid_mpi_specs_def suffix_to_prefix)

text \<open>
  C6, as the claim states it, fails where the version text ends with the clause:
  nothing is appended for \<open>cray-mpich-binary\<close>, and the spec ends with it all the
  same.
\<close>

theorem cuda_arch_cray_counterexample:
  "mpi_spec ''cray-mpich-binary@8.1.18 cuda_arch=80'' (PBool True) = Inr ''cray-mpich-binary@8.1.18 cuda_arch=80''
   \<and> suffix '' cuda_arch=80'' ''cray-mpich-binary@8.1.18 cuda_arch=80''"
  by (simp add: mpi_eval suffix_to_prefix)

section \<open>The first loop\<close>

lemma specs_ref_None: "specs_ref h a = None \<longleftrightarrow> specs (sets h a) = None \<or> specs (sets h a) = Some None"
  by (auto simp: specs_ref_def split: option.splits)

lemma specs_ref_Some: "specs_ref h a = Some l \<longleftrightarrow> specs (sets h a) = Some (Some l)"
  by (auto simp: specs_ref_def split: option.splits)

lemma amend_fresh: "fresh h \<le> fresh (amend h a)"
  by (simp add: amend_def Let_def)

lemma amend_lists: "l < fresh h \<Longrightarrow> lists (amend h a) l = lists h l"
  by (simp add: amend_def Let_def)

lemma amend_other: "b \<noteq> a \<Longrightarrow> sets (amend h a) b = sets h b"
  by (simp add: amend_def Let_def)

lemma amend_ref_stable: "specs_ref h b = Some l \<Longrightarrow> specs_ref (amend h a) b = Some l"
  by (cases "b = a") (auto simp: amend_def Let_def specs_ref_Some)

lemma amend_ref_new:
  assumes "specs_ref h a = None"
  shows "specs_ref (amend h a) a = Some (fresh h)" and "lists (amend h a) (fresh h) = []"
    and "fresh (amend h a) = Suc (fresh h)"
  using assms by (auto simp: amend_def Let_def specs_ref_Some specs_ref_None)

lemma amend_ref_old:
  assumes "specs_ref h a = Some l"
  shows "fresh (amend h a) = fresh h" and "lists (amend h a) = lists h"
  using assms by (auto simp: amend_def Let_def specs_ref_Some)

lemma amend_mpi_string: "mpi_string (sets (amend h a) b) = mpi_string (sets h b)"
  by (cases "b = a") (auto simp: amend_def Let_def mpi_string_def split: option.splits)

lemma amend_gpu_value: "gpu_value (sets (amend h a) b) = gpu_value (sets h b)"
  by (cases "b = a") (auto simp: amend_def Let_def gpu_value_def split: option.splits)

lemma amend_present: "mpi (sets (amend h a) a) \<noteq> None" "gpu (sets (amend h a) a) \<noteq> None"
  by (auto simp: amend_def Let_def)

lemma amend_present_stable:
  "mpi (sets h b) \<noteq> None \<Longrightarrow> mpi (sets (amend h a) b) \<noteq> None"
  "gpu (sets h b) \<noteq> None \<Longrightarrow> gpu (sets (amend h a) b) \<noteq> None"
  by (cases "b = a"; auto simp: amend_def Let_def)+

lemma amend_ref_cases:
  "specs_ref (amend h a) b = Some l \<Longrightarrow> specs_ref h b = Some l \<or> (b = a \<and> specs_ref h a = None \<and> l = fresh h)"
  by (cases "b = a") (auto simp: amend_def Let_def specs_ref_Some specs_ref_None split: if_splits)

lemma amend_ref_exists: "\<exists>l. specs_ref (amend h a) a = Some l"
  by (cases "specs_ref h a") (auto simp: amend_ref_new amend_ref_stable)

lemma allocated_iff:
  "allocated h raw \<longleftrightarrow> (\<forall>a \<in> snd ` set raw. \<forall>l. specs_ref h a = Some l \<longrightarrow> l < fresh h)"
  by (auto simp: allocated_def list_all_iff split: option.splits)

lemma amend_loop_fresh: "fresh h \<le> fresh (amend_loop h raw)"
proof (induction raw arbitrary: h)
  case Nil
  show ?case by simp
next
  case (Cons x raw)
  obtain n a where x: "x = (n, a)" by (cases x)
  show ?case using Cons [of "amend h a"] amend_fresh [of h a] x by simp
qed

lemma amend_loop_lists: "l < fresh h \<Longrightarrow> lists (amend_loop h raw) l = lists h l"
proof (induction raw arbitrary: h)
  case Nil
  show ?case by simp
next
  case (Cons x raw)
  obtain n a where x: "x = (n, a)" by (cases x)
  from Cons.prems have "l < fresh (amend h a)" using amend_fresh [of h a] by simp
  then have "lists (amend_loop (amend h a) raw) l = lists (amend h a) l" by (rule Cons.IH)
  with Cons.prems x show ?case by (simp add: amend_lists)
qed

lemma amend_loop_ref_stable:
  "specs_ref h b = Some l \<Longrightarrow> specs_ref (amend_loop h raw) b = Some l"
proof (induction raw arbitrary: h)
  case Nil
  then show ?case by simp
next
  case (Cons x raw)
  obtain n a where x: "x = (n, a)" by (cases x)
  from Cons.prems have "specs_ref (amend h a) b = Some l" by (rule amend_ref_stable)
  then show ?case using Cons.IH x by simp
qed

lemma amend_loop_ref_cases:
  "specs_ref (amend_loop h raw) b = Some l \<Longrightarrow> specs_ref h b = Some l \<or> fresh h \<le> l"
proof (induction raw arbitrary: h)
  case Nil
  then show ?case by simp
next
  case (Cons x raw)
  obtain n a where x: "x = (n, a)" by (cases x)
  with Cons.prems have "specs_ref (amend_loop (amend h a) raw) b = Some l" by simp
  then have "specs_ref (amend h a) b = Some l \<or> fresh (amend h a) \<le> l" by (rule Cons.IH)
  then show ?case using amend_ref_cases [of h a b l] amend_fresh [of h a] by auto
qed

lemma amend_loop_mpi_string: "mpi_string (sets (amend_loop h raw) b) = mpi_string (sets h b)"
  by (induction raw arbitrary: h) (auto simp: amend_mpi_string)

lemma amend_loop_gpu_value: "gpu_value (sets (amend_loop h raw) b) = gpu_value (sets h b)"
  by (induction raw arbitrary: h) (auto simp: amend_gpu_value)

lemma amend_loop_mpi_present: "mpi (sets h b) \<noteq> None \<Longrightarrow> mpi (sets (amend_loop h raw) b) \<noteq> None"
proof (induction raw arbitrary: h)
  case Nil
  then show ?case by simp
next
  case (Cons x raw)
  obtain n a where x: "x = (n, a)" by (cases x)
  from Cons.prems have "mpi (sets (amend h a) b) \<noteq> None" by (rule amend_present_stable)
  then show ?case using Cons.IH x by simp
qed

lemma amend_loop_gpu_present: "gpu (sets h b) \<noteq> None \<Longrightarrow> gpu (sets (amend_loop h raw) b) \<noteq> None"
proof (induction raw arbitrary: h)
  case Nil
  then show ?case by simp
next
  case (Cons x raw)
  obtain n a where x: "x = (n, a)" by (cases x)
  from Cons.prems have "gpu (sets (amend h a) b) \<noteq> None" by (rule amend_present_stable)
  then show ?case using Cons.IH x by simp
qed

lemma amend_loop_present:
  assumes "a \<in> snd ` set raw"
  shows "mpi (sets (amend_loop h raw) a) \<noteq> None" and "gpu (sets (amend_loop h raw) a) \<noteq> None"
    and "specs_ref (amend_loop h raw) a \<noteq> None"
  using assms
proof (induction raw arbitrary: h)
  case Nil
  {
    case 1 then show ?case by simp
  next
    case 2 then show ?case by simp
  next
    case 3 then show ?case by simp
  }
next
  case (Cons x raw)
  obtain n a0 where x: "x = (n, a0)" by (cases x)
  {
    case 1
    show ?case
    proof (cases "a = a0")
      case True
      then show ?thesis using x amend_loop_mpi_present [OF amend_present(1)] by simp
    next
      case False
      with 1 x have "a \<in> snd ` set raw" by auto
      then show ?thesis using Cons.IH(1) x by simp
    qed
  next
    case 2
    show ?case
    proof (cases "a = a0")
      case True
      then show ?thesis using x amend_loop_gpu_present [OF amend_present(2)] by simp
    next
      case False
      with 2 x have "a \<in> snd ` set raw" by auto
      then show ?thesis using Cons.IH(2) x by simp
    qed
  next
    case 3
    show ?case
    proof (cases "a = a0")
      case True
      obtain l where "specs_ref (amend h a0) a0 = Some l" using amend_ref_exists by blast
      then have "specs_ref (amend_loop (amend h a0) raw) a0 = Some l" by (rule amend_loop_ref_stable)
      with True x show ?thesis by simp
    next
      case False
      with 3 x have "a \<in> snd ` set raw" by auto
      then show ?thesis using Cons.IH(3) x by simp
    qed
  }
qed

lemma amend_loop_bound:
  assumes "\<forall>l. specs_ref h b = Some l \<longrightarrow> l < fresh h"
  shows "\<forall>l. specs_ref (amend_loop h raw) b = Some l \<longrightarrow> l < fresh (amend_loop h raw)"
  using assms
proof (induction raw arbitrary: h)
  case Nil
  then show ?case by simp
next
  case (Cons x raw)
  obtain n a where x: "x = (n, a)" by (cases x)
  have "\<forall>l. specs_ref (amend h a) b = Some l \<longrightarrow> l < fresh (amend h a)"
  proof (intro allI impI)
    fix l assume l: "specs_ref (amend h a) b = Some l"
    show "l < fresh (amend h a)"
    proof (cases "specs_ref h b = Some l")
      case True
      with Cons.prems have "l < fresh h" by simp
      then show ?thesis using amend_fresh [of h a] by simp
    next
      case False
      with l have "b = a" "specs_ref h a = None" "l = fresh h" using amend_ref_cases by blast+
      then show ?thesis by (simp add: amend_ref_new(3))
    qed
  qed
  then show ?case using Cons.IH [of "amend h a"] x by simp
qed


lemma amend_loop_new:
  assumes "a \<in> snd ` set raw" and "specs_ref h a = None"
  shows "\<exists>l. specs_ref (amend_loop h raw) a = Some l \<and> fresh h \<le> l \<and> lists (amend_loop h raw) l = []"
  using assms
proof (induction raw arbitrary: h)
  case Nil
  then show ?case by simp
next
  case (Cons x raw)
  obtain n a0 where x: "x = (n, a0)" by (cases x)
  show ?case
  proof (cases "a = a0")
    case True
    with Cons.prems have new: "specs_ref (amend h a0) a0 = Some (fresh h)"
        "lists (amend h a0) (fresh h) = []" "fresh (amend h a0) = Suc (fresh h)"
      by (simp_all add: amend_ref_new)
    from new(1) have "specs_ref (amend_loop (amend h a0) raw) a0 = Some (fresh h)"
      by (rule amend_loop_ref_stable)
    moreover have "lists (amend_loop (amend h a0) raw) (fresh h) = []"
      using amend_loop_lists [of "fresh h" "amend h a0" raw] new(2,3) by simp
    ultimately show ?thesis using True x by simp
  next
    case False
    with Cons.prems x have a: "a \<in> snd ` set raw" by auto
    from False Cons.prems have "specs_ref (amend h a0) a = None"
      by (simp add: specs_ref_def amend_other)
    with a obtain l where "specs_ref (amend_loop (amend h a0) raw) a = Some l"
        "fresh (amend h a0) \<le> l" "lists (amend_loop (amend h a0) raw) l = []"
      using Cons.IH by blast
    then show ?thesis using x amend_fresh [of h a0] by auto
  qed
qed

lemma amend_loop_distinct:
  assumes "a \<in> snd ` set raw" and "specs_ref h a = None" and "b \<noteq> a"
    and "\<forall>l. specs_ref h b = Some l \<longrightarrow> l < fresh h"
  shows "specs_ref (amend_loop h raw) a \<noteq> specs_ref (amend_loop h raw) b"
  using assms
proof (induction raw arbitrary: h)
  case Nil
  then show ?case by simp
next
  case (Cons x raw)
  obtain n a0 where x: "x = (n, a0)" by (cases x)
  have b': "\<forall>l. specs_ref (amend h a0) b = Some l \<longrightarrow> l < fresh (amend h a0)"
    using amend_loop_bound [OF Cons.prems(4), of "[(n, a0)]"] by simp
  show ?case
  proof (cases "a = a0")
    case True
    with Cons.prems have new: "specs_ref (amend h a0) a0 = Some (fresh h)"
        "fresh (amend h a0) = Suc (fresh h)"
      by (simp_all add: amend_ref_new)
    from new(1) have a1: "specs_ref (amend_loop (amend h a0) raw) a0 = Some (fresh h)"
      by (rule amend_loop_ref_stable)
    have "specs_ref (amend_loop (amend h a0) raw) b \<noteq> Some (fresh h)"
    proof
      assume "specs_ref (amend_loop (amend h a0) raw) b = Some (fresh h)"
      then have "specs_ref (amend h a0) b = Some (fresh h) \<or> fresh (amend h a0) \<le> fresh h"
        by (rule amend_loop_ref_cases)
      with new(2) have "specs_ref (amend h a0) b = Some (fresh h)" by simp
      moreover from Cons.prems(3) True have "specs_ref (amend h a0) b = specs_ref h b"
        by (simp add: specs_ref_def amend_other)
      ultimately show False using Cons.prems(4) by auto
    qed
    with a1 True x show ?thesis by simp
  next
    case False
    with Cons.prems x have a: "a \<in> snd ` set raw" by auto
    from False Cons.prems have "specs_ref (amend h a0) a = None"
      by (simp add: specs_ref_def amend_other)
    with a Cons.prems(3) b' show ?thesis using Cons.IH [of "amend h a0"] x by simp
  qed
qed

text \<open>What the first loop leaves.\<close>

lemma amend_loop_declared:
  assumes "allocated h raw" and "a \<in> snd ` set raw"
  shows "\<exists>l. specs_ref (amend_loop h raw) a = Some l \<and> lists (amend_loop h raw) l = declared h a"
proof (cases "specs_ref h a")
  case None
  then show ?thesis using amend_loop_new [OF assms(2)] by (auto simp: declared_def)
next
  case (Some l)
  with assms have "l < fresh h" by (auto simp: allocated_iff)
  then have "lists (amend_loop h raw) l = lists h l" by (rule amend_loop_lists)
  with Some show ?thesis by (simp add: amend_loop_ref_stable declared_def)
qed

lemma amend_loop_same_list:
  assumes "allocated h raw" and "a \<in> snd ` set raw" and "b \<in> snd ` set raw"
  shows "specs_ref (amend_loop h raw) a = specs_ref (amend_loop h raw) b \<longleftrightarrow> same_list h a b"
proof (cases "a = b")
  case True
  then show ?thesis by (simp add: same_list_def)
next
  case False
  from assms have ba: "\<forall>l. specs_ref h a = Some l \<longrightarrow> l < fresh h"
    and bb: "\<forall>l. specs_ref h b = Some l \<longrightarrow> l < fresh h"
    by (auto simp: allocated_iff)
  show ?thesis
  proof (cases "specs_ref h a")
    case None
    with False assms(2) bb have "specs_ref (amend_loop h raw) a \<noteq> specs_ref (amend_loop h raw) b"
      by (intro amend_loop_distinct) auto
    with None False show ?thesis by (simp add: same_list_def)
  next
    case (Some la)
    show ?thesis
    proof (cases "specs_ref h b")
      case None
      with False assms(3) ba have "specs_ref (amend_loop h raw) b \<noteq> specs_ref (amend_loop h raw) a"
        by (intro amend_loop_distinct) auto
      with None Some False show ?thesis by (auto simp: same_list_def)
    next
      case (Some lb)
      with \<open>specs_ref h a = Some la\<close> False show ?thesis
        by (simp add: same_list_def amend_loop_ref_stable)
    qed
  qed
qed

section \<open>The second loop\<close>

lemma expand_ok:
  assumes "mpi (sets h a) \<noteq> None" and "gpu (sets h a) \<noteq> None" and "specs_ref h a = Some l"
    and "\<not> unsupported_mpi (sets h a)"
  shows "expand h a = Inr (h\<lparr>lists := (lists h)(l := lists h l @ appended (sets h a))\<rparr>)"
proof (cases "has_mpi (sets h a)")
  case False
  with assms(1) have "expand h a = Inr h" and "appended (sets h a) = []"
    by (auto simp: expand_def has_mpi_def appended_def mpi_string_def split: option.splits)
  then show ?thesis by simp
next
  case True
  then obtain m where m: "mpi (sets h a) = Some (Some m)" "m \<noteq> []"
    by (auto simp: has_mpi_def mpi_string_def split: option.splits)
  with assms(4) have "map_of valid_mpi_specs (fst (split_mpi m)) \<noteq> None"
    by (simp add: unsupported_mpi_def mpi_string_def)
  then obtain spec where spec: "mpi_spec m (gpu_value (sets h a)) = Inr spec"
    using mpi_spec_total by blast
  with m have "appended (sets h a) = [spec]"
    by (simp add: appended_def mpi_string_def)
  moreover from assms(2) obtain g where "gpu (sets h a) = Some g" by auto
  moreover from assms(3) have "specs (sets h a) = Some (Some l)" by (simp add: specs_ref_Some)
  ultimately show ?thesis using m spec by (simp add: expand_def gpu_value_def)
qed

lemma expand_fail:
  assumes "mpi (sets h a) \<noteq> None" and "unsupported_mpi (sets h a)" and "mpi_string (sets h a) = Some m"
  shows "expand h a = Inl (Exception (''Unsupported mpi: '' @ fst (split_mpi m)))"
proof -
  from assms have m: "mpi (sets h a) = Some (Some m)" "m \<noteq> []"
      "map_of valid_mpi_specs (fst (split_mpi m)) = None"
    by (auto simp: unsupported_mpi_def mpi_string_def split: option.splits)
  then show ?thesis by (simp add: expand_def mpi_spec_unsupported)
qed

lemma visited_fields [simp]: "sets (visited h xs) = sets h" "fresh (visited h xs) = fresh h"
  "specs_ref (visited h xs) a = specs_ref h a"
  by (simp_all add: visited_def specs_ref_def)

lemma visited_Nil [simp]: "visited h [] = h"
  by (simp add: visited_def)

lemma visited_Cons:
  assumes "specs_ref h a = Some l"
  shows "visited (h\<lparr>lists := (lists h)(l := lists h l @ appended (sets h a))\<rparr>) rest = visited h ((name, a) # rest)"
proof -
  let ?h = "h\<lparr>lists := (lists h)(l := lists h l @ appended (sets h a))\<rparr>"
  let ?g = "\<lambda>h l'. concat (map (\<lambda>(name, b). if specs_ref h b = Some l' then appended (sets h b) else []) rest)"
  have r: "specs_ref ?h = specs_ref h" by (simp add: specs_ref_def fun_eq_iff)
  have "lists ?h l' @ ?g ?h l' = lists h l' @ (if specs_ref h a = Some l' then appended (sets h a) else []) @ ?g h l'" for l'
    using assms by (cases "l' = l") (simp_all add: r cong: if_cong)
  then have "(\<lambda>l'. lists ?h l' @ ?g ?h l')
      = (\<lambda>l'. lists h l' @ concat (map (\<lambda>(name, b). if specs_ref h b = Some l' then appended (sets h b) else []) ((name, a) # rest)))"
    by (simp add: fun_eq_iff)
  then show ?thesis by (simp add: visited_def)
qed

lemma mpi_loop_visited:
  assumes "\<forall>a \<in> snd ` set xs. mpi (sets h a) \<noteq> None \<and> gpu (sets h a) \<noteq> None
             \<and> specs_ref h a \<noteq> None \<and> \<not> unsupported_mpi (sets h a)"
  shows "mpi_loop h xs = (visited h xs, None)"
  using assms
proof (induction xs arbitrary: h)
  case Nil
  show ?case by simp
next
  case (Cons x xs)
  obtain n a where x: "x = (n, a)" by (cases x)
  with Cons.prems obtain l where a: "mpi (sets h a) \<noteq> None" "gpu (sets h a) \<noteq> None"
      "specs_ref h a = Some l" "\<not> unsupported_mpi (sets h a)"
    by auto
  let ?h = "h\<lparr>lists := (lists h)(l := lists h l @ appended (sets h a))\<rparr>"
  have e: "expand h a = Inr ?h" using a by (rule expand_ok)
  have "\<forall>a \<in> snd ` set xs. mpi (sets ?h a) \<noteq> None \<and> gpu (sets ?h a) \<noteq> None
             \<and> specs_ref ?h a \<noteq> None \<and> \<not> unsupported_mpi (sets ?h a)"
    using Cons.prems by (simp add: specs_ref_def)
  then have "mpi_loop ?h xs = (visited ?h xs, None)" by (rule Cons.IH)
  with e x show ?case by (simp add: visited_Cons [OF a(3)])
qed

lemma mpi_loop_stops:
  assumes "\<forall>a \<in> snd ` set pre. mpi (sets h a) \<noteq> None \<and> gpu (sets h a) \<noteq> None
             \<and> specs_ref h a \<noteq> None \<and> \<not> unsupported_mpi (sets h a)"
    and "mpi (sets h a) \<noteq> None" and "unsupported_mpi (sets h a)" and "mpi_string (sets h a) = Some m"
  shows "mpi_loop h (pre @ (name, a) # post)
           = (visited h pre, Some (Exception (''Unsupported mpi: '' @ fst (split_mpi m))))"
  using assms
proof (induction pre arbitrary: h)
  case Nil
  then show ?case by (simp add: expand_fail)
next
  case (Cons x xs)
  obtain n b where x: "x = (n, b)" by (cases x)
  with Cons.prems(1) obtain l where b: "mpi (sets h b) \<noteq> None" "gpu (sets h b) \<noteq> None"
      "specs_ref h b = Some l" "\<not> unsupported_mpi (sets h b)"
    by auto
  let ?h = "h\<lparr>lists := (lists h)(l := lists h l @ appended (sets h b))\<rparr>"
  have e: "expand h b = Inr ?h" using b by (rule expand_ok)
  have "\<forall>a \<in> snd ` set xs. mpi (sets ?h a) \<noteq> None \<and> gpu (sets ?h a) \<noteq> None
             \<and> specs_ref ?h a \<noteq> None \<and> \<not> unsupported_mpi (sets ?h a)"
    using Cons.prems(1) by (simp add: specs_ref_def)
  moreover have "mpi (sets ?h a) \<noteq> None" "unsupported_mpi (sets ?h a)" "mpi_string (sets ?h a) = Some m"
    using Cons.prems(2-4) by simp_all
  ultimately have "mpi_loop ?h (xs @ (name, a) # post)
           = (visited ?h xs, Some (Exception (''Unsupported mpi: '' @ fst (split_mpi m))))"
    by (rule Cons.IH)
  with e x show ?case by (simp add: visited_Cons [OF b(3)])
qed

section \<open>Package sets\<close>

lemma same_list_sym: "same_list h a b \<longleftrightarrow> same_list h b a"
  by (cases "specs_ref h a"; cases "specs_ref h b") (auto simp: same_list_def)

lemma appended_cong:
  "mpi_string c = mpi_string c' \<Longrightarrow> gpu_value c = gpu_value c' \<Longrightarrow> appended c = appended c'"
  by (simp add: appended_def cong: option.case_cong if_cong)

lemma unsupported_cong: "mpi_string c = mpi_string c' \<Longrightarrow> unsupported_mpi c = unsupported_mpi c'"
  by (simp add: unsupported_mpi_def)

lemma has_mpi_cong: "mpi_string c = mpi_string c' \<Longrightarrow> has_mpi c = has_mpi c'"
  by (simp add: has_mpi_def)

lemma amend_loop_appended: "appended (sets (amend_loop h raw) b) = appended (sets h b)"
  by (rule appended_cong) (simp_all add: amend_loop_mpi_string amend_loop_gpu_value)

lemma amend_loop_unsupported: "unsupported_mpi (sets (amend_loop h raw) b) = unsupported_mpi (sets h b)"
  by (rule unsupported_cong) (simp add: amend_loop_mpi_string)

lemma mpi_Some_string: "mpi c \<noteq> None \<Longrightarrow> mpi c = Some (mpi_string c)"
  by (auto simp: mpi_string_def)

lemma gpu_Some_value: "gpu c \<noteq> None \<Longrightarrow> gpu c = Some (gpu_value c)"
  by (auto simp: gpu_value_def)

text \<open>The value of a set of the mapping, after the first loop has passed all the sets
  and the second loop the sets \<open>pre\<close>.\<close>

lemma visited_set_value:
  assumes "allocated h raw" and "snd ` set pre \<subseteq> snd ` set raw" and "a \<in> snd ` set raw"
  shows "set_value (visited (amend_loop h raw) pre) a
           = (Some (Some (declared h a @ gained h a pre)), Some (mpi_string (sets h a)), Some (gpu_value (sets h a)))"
proof -
  let ?h1 = "amend_loop h raw"
  obtain l where l: "specs_ref ?h1 a = Some l" "lists ?h1 l = declared h a"
    using amend_loop_declared [OF assms(1,3)] by blast
  have "(if specs_ref ?h1 b = Some l then appended (sets ?h1 b) else [])
          = (if same_list h a b then appended (sets h b) else [])" if "b \<in> snd ` set pre" for b
  proof -
    from that assms(2) have "b \<in> snd ` set raw" by auto
    then have "specs_ref ?h1 b = specs_ref ?h1 a \<longleftrightarrow> same_list h b a"
      using assms(1,3) by (intro amend_loop_same_list)
    with l(1) show ?thesis by (simp add: same_list_sym [of h a b] amend_loop_appended)
  qed
  then have "concat (map (\<lambda>(name, b). if specs_ref ?h1 b = Some l then appended (sets ?h1 b) else []) pre)
           = gained h a pre"
    unfolding gained_def by (intro arg_cong [where f = concat] map_cong refl) force
  moreover have "lists (visited ?h1 pre) l = lists ?h1 l
      @ concat (map (\<lambda>(name, b). if specs_ref ?h1 b = Some l then appended (sets ?h1 b) else []) pre)"
    by (simp add: visited_def)
  ultimately have "lists (visited ?h1 pre) l = declared h a @ gained h a pre"
    using l(2) by (simp only:)
  moreover from l(1) have "specs (sets ?h1 a) = Some (Some l)" by (simp add: specs_ref_Some)
  moreover have "mpi (sets ?h1 a) = Some (mpi_string (sets h a))"
    using mpi_Some_string [OF amend_loop_present(1) [OF assms(3), of h]]
    by (simp add: amend_loop_mpi_string)
  moreover have "gpu (sets ?h1 a) = Some (gpu_value (sets h a))"
    using gpu_Some_value [OF amend_loop_present(2) [OF assms(3), of h]]
    by (simp add: amend_loop_gpu_value)
  ultimately show ?thesis by (simp add: set_value_def)
qed

lemma visited_packages_value:
  assumes "allocated h raw" and "snd ` set pre \<subseteq> snd ` set raw"
  shows "packages_value (visited (amend_loop h raw) pre) raw
           = map (\<lambda>(name, a). (name, Some (Some (declared h a @ gained h a pre)),
                                 Some (mpi_string (sets h a)), Some (gpu_value (sets h a)))) raw"
proof -
  have "set_value (visited (amend_loop h raw) pre) a
           = (Some (Some (declared h a @ gained h a pre)), Some (mpi_string (sets h a)), Some (gpu_value (sets h a)))"
    if "(name, a) \<in> set raw" for name a
  proof -
    from that have "a \<in> snd ` set raw" by force
    then show ?thesis by (rule visited_set_value [OF assms])
  qed
  then show ?thesis unfolding packages_value_def by (intro map_cong refl) auto
qed

lemma ready_after_amend_loop:
  assumes "\<forall>a \<in> snd ` set xs. \<not> unsupported_mpi (sets h a)" and "snd ` set xs \<subseteq> snd ` set raw"
  shows "\<forall>a \<in> snd ` set xs. mpi (sets (amend_loop h raw) a) \<noteq> None \<and> gpu (sets (amend_loop h raw) a) \<noteq> None
             \<and> specs_ref (amend_loop h raw) a \<noteq> None \<and> \<not> unsupported_mpi (sets (amend_loop h raw) a)"
proof
  fix a assume a: "a \<in> snd ` set xs"
  with assms(2) have "a \<in> snd ` set raw" by blast
  note p = amend_loop_present [OF this, of h]
  from a assms(1) have "\<not> unsupported_mpi (sets h a)" by blast
  then have "\<not> unsupported_mpi (sets (amend_loop h raw) a)"
    by (simp add: amend_loop_unsupported)
  with p show "mpi (sets (amend_loop h raw) a) \<noteq> None \<and> gpu (sets (amend_loop h raw) a) \<noteq> None
             \<and> specs_ref (amend_loop h raw) a \<noteq> None \<and> \<not> unsupported_mpi (sets (amend_loop h raw) a)"
    by blast
qed

lemma generate_package_specs_ok:
  assumes "\<forall>a \<in> snd ` set raw. \<not> unsupported_mpi (sets h a)"
  shows "generate_package_specs self h raw
           = (self\<lparr>packages := Some raw\<rparr>, visited (amend_loop h raw) raw, None)"
  using mpi_loop_visited [OF ready_after_amend_loop [OF assms subset_refl]]
  by (simp add: generate_package_specs_def)

lemma generate_package_specs_fail:
  assumes "\<forall>b \<in> snd ` set pre. \<not> unsupported_mpi (sets h b)" and "unsupported_mpi (sets h a)"
    and "mpi_string (sets h a) = Some m"
  shows "generate_package_specs self h (pre @ (name, a) # post)
           = (self, visited (amend_loop h (pre @ (name, a) # post)) pre,
              Some (Exception (''Unsupported mpi: '' @ fst (split_mpi m))))"
proof -
  let ?raw = "pre @ (name, a) # post"
  have "snd ` set pre \<subseteq> snd ` set ?raw" by auto
  note r = ready_after_amend_loop [OF assms(1) this]
  have a: "a \<in> snd ` set ?raw" by force
  have "mpi_loop (amend_loop h ?raw) ?raw
      = (visited (amend_loop h ?raw) pre, Some (Exception (''Unsupported mpi: '' @ fst (split_mpi m))))"
    using r amend_loop_present(1) [OF a, of h] assms(2,3)
    by (intro mpi_loop_stops) (simp_all add: amend_loop_unsupported amend_loop_mpi_string)
  then show ?thesis by (simp add: generate_package_specs_def)
qed

lemma gained_filter:
  "gained h a xs = concat (map (\<lambda>(name, b). appended (sets h b)) (filter (\<lambda>(name, b). same_list h a b) xs))"
  by (induction xs) (auto simp: gained_def)





lemma allocated_visited [simp]: "allocated (visited h xs) raw = allocated h raw"
  by (simp add: allocated_iff)





lemmas heap_eval = generate_package_specs_def amend_def expand_def mpi_eval packages_value_def
  set_value_def store_def

lemmas view_eval = declared_def gained_def same_list_def appended_def specs_ref_def mpi_string_def
  gpu_value_def unsupported_mpi_def has_mpi_def allocated_def store_def mpi_eval

text \<open>
  C8, as the code has it.  In a batch that resolves, the spec the resolver appends
  for a set whose \<open>mpi\<close> is \<open>mpich\<close> is
  \<open>mpich@4.1rc2 device=ch4 netmod=ofi +slurm\<close> when the \<open>gpu\<close> of the set is not
  true, and that spec followed by \<open>cuda_arch=80\<close> when it is.  The \<open>specs\<close> of the
  set end as the specs it declares followed by the specs appended for the sets that
  hold the same list, in iteration order: for a set that shares its list with no other
  set of the batch, the declared specs followed by that one spec.
\<close>

theorem mpich_default_spec:
  assumes "allocated h raw" and "\<forall>(n, b) \<in> set raw. \<not> unsupported_mpi (sets h b)"
    and "(name, a) \<in> set raw" and "mpi_string (sets h a) = Some ''mpich''"
  shows "\<exists>h'. generate_package_specs self h raw = (self\<lparr>packages := Some raw\<rparr>, h', None)
           \<and> appended (sets h a) = [''mpich@4.1rc2 device=ch4 netmod=ofi +slurm''
                                      @ (if truthy (gpu_value (sets h a)) then '' cuda_arch=80'' else [])]
           \<and> set_value h' a = (Some (Some (declared h a @ gained h a raw)),
                                Some (Some ''mpich''), Some (gpu_value (sets h a)))
           \<and> (filter (\<lambda>(n, b). same_list h a b) raw = [(name, a)] \<longrightarrow>
                set_value h' a = (Some (Some (declared h a @ [''mpich@4.1rc2 device=ch4 netmod=ofi +slurm''
                                      @ (if truthy (gpu_value (sets h a)) then '' cuda_arch=80'' else [])])),
                                  Some (Some ''mpich''), Some (gpu_value (sets h a))))"
proof -
  from assms(2) have "\<forall>a \<in> snd ` set raw. \<not> unsupported_mpi (sets h a)" by auto
  then have g: "generate_package_specs self h raw
      = (self\<lparr>packages := Some raw\<rparr>, visited (amend_loop h raw) raw, None)"
    by (rule generate_package_specs_ok)
  have ap: "appended (sets h a) = [''mpich@4.1rc2 device=ch4 netmod=ofi +slurm''
                                      @ (if truthy (gpu_value (sets h a)) then '' cuda_arch=80'' else [])]"
    using assms(4) by (simp add: appended_def mpi_spec_mpich)
  from assms(3) have "a \<in> snd ` set raw" by force
  then have v: "set_value (visited (amend_loop h raw) raw) a
      = (Some (Some (declared h a @ gained h a raw)), Some (Some ''mpich''), Some (gpu_value (sets h a)))"
    using visited_set_value [OF assms(1) subset_refl] assms(4) by simp
  have "gained h a raw = appended (sets h a)" if "filter (\<lambda>(n, b). same_list h a b) raw = [(name, a)]"
    using that by (simp add: gained_filter)
  with g ap v show ?thesis by auto
qed

theorem mpich_default_spec_witness:
  "\<exists>h'. generate_package_specs \<lparr>compilers = [], packages = None\<rparr>
       (store [\<lparr>specs = None, mpi = None, gpu = None\<rparr>,
               \<lparr>specs = Some (Some 0), mpi = Some (Some ''mpich''), gpu = None\<rparr>] [[''hdf5'']])
       [(''tools'', 0), (''prgenv'', 1)]
       = (\<lparr>compilers = [], packages = Some [(''tools'', 0), (''prgenv'', 1)]\<rparr>, h', None)
     \<and> set_value h' 1 = (Some (Some [''hdf5'', ''mpich@4.1rc2 device=ch4 netmod=ofi +slurm'']),
                         Some (Some ''mpich''), Some PNone)"
proof -
  let ?h = "store [\<lparr>specs = None, mpi = None, gpu = None\<rparr>,
               \<lparr>specs = Some (Some 0), mpi = Some (Some ''mpich''), gpu = None\<rparr>] [[''hdf5'']]"
  let ?raw = "[(''tools'', 0), (''prgenv'', 1 :: nat)]"
  have a: "allocated ?h ?raw" by (simp add: allocated_def specs_ref_def store_def)
  have u: "\<forall>(n, b) \<in> set ?raw. \<not> unsupported_mpi (sets ?h b)" by (simp add: view_eval)
  have m: "(''prgenv'', 1) \<in> set ?raw" by simp
  have s: "mpi_string (sets ?h 1) = Some ''mpich''" by (simp add: mpi_string_def store_def)
  have f: "filter (\<lambda>(n, b). same_list ?h 1 b) ?raw = [(''prgenv'', 1)]"
    by (simp add: same_list_def specs_ref_def store_def)
  have d: "declared ?h 1 = [''hdf5'']" "gpu_value (sets ?h 1) = PNone"
    by (simp_all add: declared_def specs_ref_def gpu_value_def store_def)
  from mpich_default_spec [OF a u m s, of "\<lparr>compilers = [], packages = None\<rparr>"] f d
  show ?thesis by auto
qed

text \<open>
  C8, as the claim states it, fails for a set with a true \<open>gpu\<close>: the spec
  appended is not the string of the claim.
\<close>

theorem mpich_gpu_counterexample:
  "packages_value (fst (snd (generate_package_specs \<lparr>compilers = [], packages = None\<rparr>
       (store [\<lparr>specs = Some (Some 0), mpi = Some (Some ''mpich''), gpu = Some (PStr ''nvidia'')\<rparr>] [[''hdf5'']])
       [(''prgenv'', 0)]))) [(''prgenv'', 0)]
     = [(''prgenv'', Some (Some [''hdf5'', ''mpich@4.1rc2 device=ch4 netmod=ofi +slurm cuda_arch=80'']),
                     Some (Some ''mpich''), Some (PStr ''nvidia''))]
   \<and> snd (snd (generate_package_specs \<lparr>compilers = [], packages = None\<rparr>
       (store [\<lparr>specs = Some (Some 0), mpi = Some (Some ''mpich''), gpu = Some (PStr ''nvidia'')\<rparr>] [[''hdf5'']])
       [(''prgenv'', 0)])) = None"
  by (simp add: heap_eval)

text \<open>
  C2, as the code has it.  When some set names an unsupported implementation, the
  call raises \<open>Exception('Unsupported mpi: <impl>')\<close> for the first such set in
  iteration order and leaves the object as it was (\<open>self.packages\<close> is not
  assigned).  The raw mapping is modified in place: every set is normalised, and
  every list has gained the specs of the sets visited before the failing one that hold
  it.
\<close>

theorem unsupported_mpi_aborts:
  assumes "allocated h raw" and "\<exists>(n, a) \<in> set raw. unsupported_mpi (sets h a)"
  shows "\<exists>pre name a post m h'.
           raw = pre @ (name, a) # post
         \<and> (\<forall>(n, b) \<in> set pre. \<not> unsupported_mpi (sets h b))
         \<and> mpi_string (sets h a) = Some m \<and> m \<noteq> [] \<and> map_of valid_mpi_specs (fst (split_mpi m)) = None
         \<and> generate_package_specs self h raw
             = (self, h', Some (Exception (''Unsupported mpi: '' @ fst (split_mpi m))))
         \<and> packages_value h' raw
             = map (\<lambda>(name, b). (name, Some (Some (declared h b @ gained h b pre)),
                                   Some (mpi_string (sets h b)), Some (gpu_value (sets h b)))) raw"
proof -
  from assms(2) have "\<exists>x \<in> set raw. unsupported_mpi (sets h (snd x))" by force
  then obtain pre x post where raw: "raw = pre @ x # post" and x: "unsupported_mpi (sets h (snd x))"
      and pre: "\<forall>y \<in> set pre. \<not> unsupported_mpi (sets h (snd y))"
    using split_list_first_prop [of raw "\<lambda>x. unsupported_mpi (sets h (snd x))"] by blast
  obtain name a where nc: "x = (name, a)" by (cases x)
  from x nc obtain m where m: "mpi_string (sets h a) = Some m" "m \<noteq> []"
      "map_of valid_mpi_specs (fst (split_mpi m)) = None"
    by (auto simp: unsupported_mpi_def split: option.splits)
  from pre have p1: "\<forall>b \<in> snd ` set pre. \<not> unsupported_mpi (sets h b)" by auto
  from pre have p2: "\<forall>(n, b) \<in> set pre. \<not> unsupported_mpi (sets h b)" by auto
  from x nc have u: "unsupported_mpi (sets h a)" by simp
  have g: "generate_package_specs self h raw
      = (self, visited (amend_loop h raw) pre, Some (Exception (''Unsupported mpi: '' @ fst (split_mpi m))))"
    using generate_package_specs_fail [OF p1 u m(1), of self name post] raw nc by simp
  from raw have "snd ` set pre \<subseteq> snd ` set raw" by auto
  note v = visited_packages_value [OF assms(1) this]
  from raw nc p2 m g v show ?thesis by blast
qed

theorem unsupported_mpi_aborts_witness:
  "\<exists>pre name a post m h'.
       [(''a'', 0), (''b'', 1)] = pre @ (name, a) # post
     \<and> (\<forall>(n, b) \<in> set pre. \<not> unsupported_mpi (sets (store
            [\<lparr>specs = Some (Some 0), mpi = Some (Some ''mpich''), gpu = None\<rparr>,
             \<lparr>specs = None, mpi = Some (Some ''openmpi''), gpu = None\<rparr>] [[''hdf5'']]) b))
     \<and> mpi_string (sets (store
            [\<lparr>specs = Some (Some 0), mpi = Some (Some ''mpich''), gpu = None\<rparr>,
             \<lparr>specs = None, mpi = Some (Some ''openmpi''), gpu = None\<rparr>] [[''hdf5'']]) a) = Some m
     \<and> m \<noteq> [] \<and> map_of valid_mpi_specs (fst (split_mpi m)) = None
     \<and> generate_package_specs \<lparr>compilers = [], packages = None\<rparr> (store
            [\<lparr>specs = Some (Some 0), mpi = Some (Some ''mpich''), gpu = None\<rparr>,
             \<lparr>specs = None, mpi = Some (Some ''openmpi''), gpu = None\<rparr>] [[''hdf5'']]) [(''a'', 0), (''b'', 1)]
         = (\<lparr>compilers = [], packages = None\<rparr>, h', Some (Exception (''Unsupported mpi: '' @ fst (split_mpi m))))
     \<and> packages_value h' [(''a'', 0), (''b'', 1)]
         = map (\<lambda>(name, b). (name, Some (Some (declared (store
            [\<lparr>specs = Some (Some 0), mpi = Some (Some ''mpich''), gpu = None\<rparr>,
             \<lparr>specs = None, mpi = Some (Some ''openmpi''), gpu = None\<rparr>] [[''hdf5'']]) b @ gained (store
            [\<lparr>specs = Some (Some 0), mpi = Some (Some ''mpich''), gpu = None\<rparr>,
             \<lparr>specs = None, mpi = Some (Some ''openmpi''), gpu = None\<rparr>] [[''hdf5'']]) b pre)),
                               Some (mpi_string (sets (store
            [\<lparr>specs = Some (Some 0), mpi = Some (Some ''mpich''), gpu = None\<rparr>,
             \<lparr>specs = None, mpi = Some (Some ''openmpi''), gpu = None\<rparr>] [[''hdf5'']]) b)), Some (gpu_value (sets (store
            [\<lparr>specs = Some (Some 0), mpi = Some (Some ''mpich''), gpu = None\<rparr>,
             \<lparr>specs = None, mpi = Some (Some ''openmpi''), gpu = None\<rparr>] [[''hdf5'']]) b)))) [(''a'', 0), (''b'', 1)]"
proof -
  let ?h = "store [\<lparr>specs = Some (Some 0), mpi = Some (Some ''mpich''), gpu = None\<rparr>,
             \<lparr>specs = None, mpi = Some (Some ''openmpi''), gpu = None\<rparr>] [[''hdf5'']]"
  have a: "allocated ?h [(''a'', 0), (''b'', 1)]" by (simp add: allocated_def specs_ref_def store_def)
  have u: "\<exists>(n, a) \<in> set [(''a'', 0), (''b'', 1)]. unsupported_mpi (sets ?h a)"
    by (simp add: view_eval)
  show ?thesis by (rule unsupported_mpi_aborts [OF a u])
qed

text \<open>
  C2, as the claim states it, fails: set \<open>a\<close>, visited before the unsupported
  set \<open>b\<close>, has gained its MPI spec when the exception is raised.
\<close>

theorem partial_mutation_counterexample:
  "fst (generate_package_specs \<lparr>compilers = [], packages = None\<rparr>
       (store [\<lparr>specs = Some (Some 0), mpi = Some (Some ''mpich''), gpu = None\<rparr>,
               \<lparr>specs = None, mpi = Some (Some ''openmpi''), gpu = None\<rparr>] [[''hdf5'']])
       [(''a'', 0), (''b'', 1)]) = \<lparr>compilers = [], packages = None\<rparr>
   \<and> snd (snd (generate_package_specs \<lparr>compilers = [], packages = None\<rparr>
       (store [\<lparr>specs = Some (Some 0), mpi = Some (Some ''mpich''), gpu = None\<rparr>,
               \<lparr>specs = None, mpi = Some (Some ''openmpi''), gpu = None\<rparr>] [[''hdf5'']])
       [(''a'', 0), (''b'', 1)])) = Some (Exception ''Unsupported mpi: openmpi'')
   \<and> packages_value (fst (snd (generate_package_specs \<lparr>compilers = [], packages = None\<rparr>
       (store [\<lparr>specs = Some (Some 0), mpi = Some (Some ''mpich''), gpu = None\<rparr>,
               \<lparr>specs = None, mpi = Some (Some ''openmpi''), gpu = None\<rparr>] [[''hdf5'']])
       [(''a'', 0), (''b'', 1)]))) [(''a'', 0), (''b'', 1)]
     = [(''a'', Some (Some [''hdf5'', ''mpich@4.1rc2 device=ch4 netmod=ofi +slurm'']), Some (Some ''mpich''), Some PNone),
        (''b'', Some (Some []), Some (Some ''openmpi''), Some PNone)]"
  by (simp add: heap_eval)

text \<open>
  Two sets that hold one list (a YAML alias) both show every spec appended to it:
  each other's in a batch that resolves, and the earlier set's in the failing set of
  a batch that does not.
\<close>

lemma aliased_specs_gain_every_spec:
  "packages_value (fst (snd (generate_package_specs \<lparr>compilers = [], packages = None\<rparr>
       (store [\<lparr>specs = Some (Some 0), mpi = Some (Some ''mpich''), gpu = None\<rparr>,
               \<lparr>specs = Some (Some 0), mpi = Some (Some ''mvapich2''), gpu = None\<rparr>] [[''hdf5'']])
       [(''a'', 0), (''b'', 1)]))) [(''a'', 0), (''b'', 1)]
     = [(''a'', Some (Some [''hdf5'', ''mpich@4.1rc2 device=ch4 netmod=ofi +slurm'',
                            ''mvapich2@3.0a +xpmem fabrics=ch4ofi ch4_max_vcis=4 process_managers=slurm'']),
               Some (Some ''mpich''), Some PNone),
        (''b'', Some (Some [''hdf5'', ''mpich@4.1rc2 device=ch4 netmod=ofi +slurm'',
                            ''mvapich2@3.0a +xpmem fabrics=ch4ofi ch4_max_vcis=4 process_managers=slurm'']),
               Some (Some ''mvapich2''), Some PNone)]"
  by (simp add: heap_eval)

lemma aliased_specs_gain_before_the_exception:
  "packages_value (fst (snd (generate_package_specs \<lparr>compilers = [], packages = None\<rparr>
       (store [\<lparr>specs = Some (Some 0), mpi = Some (Some ''mpich''), gpu = None\<rparr>,
               \<lparr>specs = Some (Some 0), mpi = Some (Some ''openmpi''), gpu = None\<rparr>] [[''hdf5'']])
       [(''a'', 0), (''b'', 1)]))) [(''a'', 0), (''b'', 1)]
     = [(''a'', Some (Some [''hdf5'', ''mpich@4.1rc2 device=ch4 netmod=ofi +slurm'']), Some (Some ''mpich''), Some PNone),
        (''b'', Some (Some [''hdf5'', ''mpich@4.1rc2 device=ch4 netmod=ofi +slurm'']), Some (Some ''openmpi''), Some PNone)]"
  by (simp add: heap_eval)

section \<open>Resolving twice\<close>




end
